theory Spec2Isabelle
  imports Complex_Main
begin

section \<open>LinePlanner: the layout generator\<close>

text \<open>
  A shallow embedding of \<^verbatim>\<open>generateLayout\<close> (the layout generator module, which imports
  \<^verbatim>\<open>calculateMachineRequirements\<close> from \<^verbatim>\<open>./lineBalancing\<close>).

  Numbers. The JavaScript numbers of the source are modelled as rationals. Every
  along-line offset the generator computes is a sum of the constants 2.0, 1.5, 1.0, 2.5
  and 3.5, which binary floating point adds exactly (below 2^52), so the rational
  model computes the same offsets. Yaw angles are stored in units of \<open>\<pi>/2\<close> radians:
  the source's \<^verbatim>\<open>-Math.PI / 2\<close>, \<^verbatim>\<open>Math.PI / 2\<close>, \<^verbatim>\<open>Math.PI\<close> and \<^verbatim>\<open>0\<close> are
  \<open>-1\<close>, \<open>1\<close>, \<open>2\<close> and \<open>0\<close>.

  Identifiers. \<^verbatim>\<open>uuidv4()\<close> is the only source of randomness. The model takes the
  generator as a parameter \<open>rnd\<close>: the \<open>n\<close>-th call of \<^verbatim>\<open>uuidv4\<close> within one
  \<^verbatim>\<open>generateLayout\<close> call returns \<open>rnd n\<close>, and the state counts the calls.

  Strings are ASCII: \<^verbatim>\<open>toLowerCase\<close> maps \<open>A..Z\<close> to \<open>a..z\<close>.
\<close>

subsection \<open>Data model\<close>

text \<open>\<^verbatim>\<open>interface Operation\<close>; the field \<^verbatim>\<open>section\<close> is \<open>op_section\<close> here.\<close>

record Operation =
  op_no :: string
  op_name :: string
  machine_type :: string
  smv :: rat
  op_section :: string

datatype lane = LaneA | LaneB | LaneC | LaneD

text \<open>The \<^verbatim>\<open>{ x, y, z }\<close> objects of \<^verbatim>\<open>position\<close> and \<^verbatim>\<open>rotation\<close>.\<close>

record vec3 =
  vx :: rat
  vy :: rat
  vz :: rat

text \<open>
  The objects pushed onto \<^verbatim>\<open>layout\<close>. The field \<^verbatim>\<open>id\<close> is \<open>ent_id\<close> and
  \<^verbatim>\<open>section\<close> is \<open>ent_section\<close>. The optional flags \<^verbatim>\<open>isInspection\<close> and
  \<^verbatim>\<open>isTrolley\<close> are \<open>False\<close> where the source leaves them out, and
  \<^verbatim>\<open>machineIndex\<close> is \<open>None\<close> where the source leaves it out.
\<close>

record MachinePosition =
  ent_id :: string
  operation :: Operation
  position :: vec3
  rotation :: vec3
  lane :: lane
  isInspection :: bool
  isTrolley :: bool
  ent_section :: string
  machineIndex :: "int option"

text \<open>
  \<^verbatim>\<open>interface LaneCursors { A; B; C; D }\<close>. The source reads and writes it both by
  field and by a computed key (\<^verbatim>\<open>cursors[currentLane]\<close>), so it is a total map on lanes.
\<close>

type_synonym LaneCursors = "lane \<Rightarrow> rat"

text \<open>
  An element of \<^verbatim>\<open>balancedOps\<close>: \<^verbatim>\<open>{ operation, count }\<close>. The count is what
  \<^verbatim>\<open>calculateMachineRequirements\<close> returns for the operation, a whole number of
  machines, hence a natural number here.
\<close>

type_synonym balancedOp = "Operation \<times> nat"

text \<open>
  The mutable state of one call: the \<^verbatim>\<open>layout\<close> array, the \<^verbatim>\<open>cursors\<close> object
  and the number of \<^verbatim>\<open>uuidv4\<close> calls made so far.
\<close>

record gen_state =
  layout :: "MachinePosition list"
  cursors :: LaneCursors
  uuid_calls :: nat

datatype targetGroup = AB | CD

datatype error = InvalidDemand

subsection \<open>Constants\<close>

definition LANE_Z_A :: rat where "LANE_Z_A = - 6 / 5"
definition LANE_Z_B :: rat where "LANE_Z_B = - 14 / 5"
definition LANE_Z_C :: rat where "LANE_Z_C = 6 / 5"
definition LANE_Z_D :: rat where "LANE_Z_D = 14 / 5"

definition MACHINE_SPACING_X :: rat where "MACHINE_SPACING_X = 2"
definition SECTION_GAP_X :: rat where "SECTION_GAP_X = 2"
definition BOARD_GAP :: rat where "BOARD_GAP = 3 / 2"

definition ROT_FACE_FRONT :: rat where "ROT_FACE_FRONT = - 1"
definition ROT_FACE_BACK :: rat where "ROT_FACE_BACK = 1"
definition ROT_FACE_LEFT :: rat where "ROT_FACE_LEFT = 2"
definition ROT_FACE_RIGHT :: rat where "ROT_FACE_RIGHT = 0"

definition ROT_A_FACES_B :: rat where "ROT_A_FACES_B = ROT_FACE_LEFT"
definition ROT_B_FACES_A :: rat where "ROT_B_FACES_A = ROT_FACE_RIGHT"
definition ROT_C_FACES_D :: rat where "ROT_C_FACES_D = ROT_FACE_RIGHT"
definition ROT_D_FACES_C :: rat where "ROT_D_FACES_C = ROT_FACE_LEFT"

definition abSections :: "string list" where
  "abSections = [''cuff'', ''sleeve'', ''back'']"

definition cdSections :: "string list" where
  "cdSections = [''collar'', ''front'']"

definition assemblySection :: string where
  "assemblySection = ''assembly''"

subsection \<open>Strings\<close>

definition toLowerChar :: "char \<Rightarrow> char" where
  "toLowerChar c =
     (let n = (of_char c :: nat) in if 65 \<le> n \<and> n \<le> 90 then char_of (n + 32) else c)"

definition toLowerCase :: "string \<Rightarrow> string" where
  "toLowerCase s = map toLowerChar s"

fun startsWith :: "string \<Rightarrow> string \<Rightarrow> bool" where
  "startsWith s [] = True"
| "startsWith [] (p # ps) = False"
| "startsWith (c # s) (p # ps) = (c = p \<and> startsWith s ps)"

text \<open>\<^verbatim>\<open>s.includes(p)\<close>: \<open>p\<close> occurs in \<open>s\<close> as a contiguous substring.\<close>

fun str_includes :: "string \<Rightarrow> string \<Rightarrow> bool" where
  "str_includes [] p = (p = [])"
| "str_includes (c # s) p = (startsWith (c # s) p \<or> str_includes s p)"

text \<open>The decimal rendering of a loop index inside a template literal.\<close>

fun showNat :: "nat \<Rightarrow> string" where
  "showNat n =
     (if n < 10 then [''0123456789'' ! n]
      else showNat (n div 10) @ [''0123456789'' ! (n mod 10)])"

declare showNat.simps [simp del]

subsection \<open>Helpers of \<^verbatim>\<open>generateLayout\<close>\<close>

definition createDummyOp :: "string \<Rightarrow> string \<Rightarrow> Operation" where
  "createDummyOp name sec =
     \<lparr> op_no = ''00'', op_name = name, machine_type = name, smv = 0, op_section = sec \<rparr>"

text \<open>
  \<^verbatim>\<open>addMachine(op, lane, xPos, countIdx, forcedRot?, sectionName?)\<close>, in two parts:
  \<open>machineEntity\<close> is the object the helper builds, given the string \<^verbatim>\<open>uuidv4()\<close>
  returned, and \<open>addMachine\<close> pushes it. The four \<^verbatim>\<open>if (lane === ...)\<close> statements
  are exclusive, so they are one case distinction; the initial \<^verbatim>\<open>z = 0; ry = 0\<close> is
  overwritten by one of them for every lane. \<^verbatim>\<open>sectionName || op.section\<close> takes
  \<^verbatim>\<open>op.section\<close> when the argument is missing or the empty string.
\<close>

definition machineEntity ::
  "string \<Rightarrow> Operation \<Rightarrow> lane \<Rightarrow> rat \<Rightarrow> nat \<Rightarrow> rat option \<Rightarrow> string option
     \<Rightarrow> MachinePosition" where
  "machineEntity uuid op la xPos countIdx forcedRot sectionName =
     (let z = (case la of LaneA \<Rightarrow> LANE_Z_A | LaneB \<Rightarrow> LANE_Z_B
                        | LaneC \<Rightarrow> LANE_Z_C | LaneD \<Rightarrow> LANE_Z_D);
          ry = (case la of LaneA \<Rightarrow> ROT_A_FACES_B | LaneB \<Rightarrow> ROT_B_FACES_A
                         | LaneC \<Rightarrow> ROT_C_FACES_D | LaneD \<Rightarrow> ROT_D_FACES_C);
          type = toLowerCase (machine_type op);
          ry = (if str_includes type ''iron'' \<or> str_includes type ''inspection''
                then ROT_FACE_FRONT else ry);
          ry = (case forcedRot of Some r \<Rightarrow> r | None \<Rightarrow> ry)
      in \<lparr> ent_id = op_no op @ ''-'' @ showNat countIdx @ ''-'' @ uuid,
           operation = op,
           position = \<lparr> vx = xPos, vy = 0, vz = z \<rparr>,
           rotation = \<lparr> vx = 0, vy = ry, vz = 0 \<rparr>,
           lane = la,
           isInspection = False,
           isTrolley = False,
           ent_section = (case sectionName of
                            Some s \<Rightarrow> if s = [] then op_section op else s
                          | None \<Rightarrow> op_section op),
           machineIndex = Some (int countIdx) \<rparr>)"

definition addMachine ::
  "(nat \<Rightarrow> string) \<Rightarrow> Operation \<Rightarrow> lane \<Rightarrow> rat \<Rightarrow> nat \<Rightarrow> rat option \<Rightarrow> string option
     \<Rightarrow> gen_state \<Rightarrow> gen_state" where
  "addMachine rnd op la xPos countIdx forcedRot sectionName st =
     st \<lparr> layout := layout st @
            [machineEntity (rnd (uuid_calls st)) op la xPos countIdx forcedRot sectionName],
          uuid_calls := Suc (uuid_calls st) \<rparr>"

text \<open>
  \<^verbatim>\<open>addBoard(name, xPos, zPos)\<close>, in the same two parts.
\<close>

definition boardEntity :: "string \<Rightarrow> string \<Rightarrow> rat \<Rightarrow> rat \<Rightarrow> MachinePosition" where
  "boardEntity uuid name xPos zPos =
     (let dummyOp = (createDummyOp name name) \<lparr> machine_type := ''Board'' \<rparr>
      in \<lparr> ent_id = ''board-'' @ name @ ''-'' @ uuid,
           operation = dummyOp,
           position = \<lparr> vx = xPos, vy = 5 / 2, vz = zPos \<rparr>,
           rotation = \<lparr> vx = 0, vy = ROT_FACE_FRONT, vz = 0 \<rparr>,
           lane = (if zPos < 0 then LaneA else LaneC),
           isInspection = False,
           isTrolley = False,
           ent_section = name,
           machineIndex = Some (- 1) \<rparr>)"

definition addBoard :: "(nat \<Rightarrow> string) \<Rightarrow> string \<Rightarrow> rat \<Rightarrow> rat \<Rightarrow> gen_state \<Rightarrow> gen_state" where
  "addBoard rnd name xPos zPos st =
     st \<lparr> layout := layout st @ [boardEntity (rnd (uuid_calls st)) name xPos zPos],
          uuid_calls := Suc (uuid_calls st) \<rparr>"

subsection \<open>Grouping by section\<close>

text \<open>
  The \<^verbatim>\<open>balancedOps.forEach\<close> that fills \<^verbatim>\<open>sectionsMap\<close> and \<^verbatim>\<open>sectionOrder\<close>:
  a section name seen for the first time gets an empty bucket and is appended to the
  order; the item is then appended to its bucket.
\<close>

definition sectionKey :: "balancedOp \<Rightarrow> string" where
  "sectionKey item =
     (if op_section (fst item) = [] then ''Unknown'' else op_section (fst item))"

definition groupStep ::
  "balancedOp \<Rightarrow> (string \<rightharpoonup> balancedOp list) \<times> string list
     \<Rightarrow> (string \<rightharpoonup> balancedOp list) \<times> string list" where
  "groupStep item acc =
     (let sectionsMap = fst acc; sectionOrder = snd acc; sec = sectionKey item
      in case sectionsMap sec of
           None \<Rightarrow> (sectionsMap(sec \<mapsto> [item]), sectionOrder @ [sec])
         | Some bucket \<Rightarrow> (sectionsMap(sec \<mapsto> bucket @ [item]), sectionOrder))"

definition groupBySection ::
  "balancedOp list \<Rightarrow> (string \<rightharpoonup> balancedOp list) \<times> string list" where
  "groupBySection balancedOps = fold groupStep balancedOps (Map.empty, [])"

subsection \<open>Assembly section\<close>

definition max4 :: "LaneCursors \<Rightarrow> rat" where
  "max4 c = max (max (max (c LaneA) (c LaneB)) (c LaneC)) (c LaneD)"

text \<open>Lines 130-131: all four cursors move to \<^verbatim>\<open>max(A, B, C, D) + SECTION_GAP_X\<close>.\<close>

definition syncAll :: "gen_state \<Rightarrow> gen_state" where
  "syncAll st =
     (let startX = max4 (cursors st) + SECTION_GAP_X
      in st \<lparr> cursors := (\<lambda>l. startX) \<rparr>)"

definition isButtonOp :: "balancedOp \<Rightarrow> bool" where
  "isButtonOp i =
     (str_includes (toLowerCase (machine_type (fst i))) ''button'' \<or>
      str_includes (toLowerCase (op_name (fst i))) ''button'')"

text \<open>The body of \<^verbatim>\<open>mainOps.forEach\<close>; the accumulator carries \<^verbatim>\<open>assemblyCursor\<close>.\<close>

definition placeMain ::
  "(nat \<Rightarrow> string) \<Rightarrow> string \<Rightarrow> balancedOp \<Rightarrow> rat \<times> gen_state \<Rightarrow> rat \<times> gen_state" where
  "placeMain rnd secName item acc =
     (let operation = fst item; count = snd item;
          assemblyCursor = fst acc;
          st = fold (\<lambda>k st.
                 let laneIdx = k mod 3;
                     rowIdx = k div 3;
                     la = [LaneA, LaneB, LaneC] ! laneIdx;
                     xPos = assemblyCursor + of_nat rowIdx * MACHINE_SPACING_X
                 in addMachine rnd operation la xPos k (Some ROT_FACE_FRONT) (Some secName) st)
               [0..<count] (snd acc);
          rows = \<lceil>(of_nat count :: rat) / 3\<rceil>
      in (assemblyCursor + of_int rows * MACHINE_SPACING_X, st))"

text \<open>The body of \<^verbatim>\<open>buttonOps.forEach\<close>; the accumulator carries \<^verbatim>\<open>dCursor\<close>.\<close>

definition placeButton ::
  "(nat \<Rightarrow> string) \<Rightarrow> string \<Rightarrow> balancedOp \<Rightarrow> rat \<times> gen_state \<Rightarrow> rat \<times> gen_state" where
  "placeButton rnd secName item acc =
     fold (\<lambda>k acc'.
            (fst acc' + MACHINE_SPACING_X,
             addMachine rnd (fst item) LaneD (fst acc') k (Some ROT_FACE_FRONT) (Some secName)
               (snd acc')))
          [0..<snd item] acc"

text \<open>
  Lines 133-175, given \<^verbatim>\<open>startX\<close>: the board, the partition into buttoning and main
  operations and the two placement loops. The result carries \<^verbatim>\<open>assemblyCursor\<close> and
  \<^verbatim>\<open>dCursor\<close>.
  \<^verbatim>\<open>buttonOps.includes(i)\<close> compares object identity; every element of \<^verbatim>\<open>ops\<close> is
  in \<^verbatim>\<open>buttonOps\<close> exactly when it passed the filter, which membership by value also
  decides, the filter depending on the value only.
\<close>

definition assemblyPlace ::
  "(nat \<Rightarrow> string) \<Rightarrow> string \<Rightarrow> balancedOp list \<Rightarrow> rat \<Rightarrow> gen_state
     \<Rightarrow> rat \<times> rat \<times> gen_state" where
  "assemblyPlace rnd secName ops startX st =
     (let st1 = addBoard rnd ''Assembly'' startX 0 st;
          buttonOps = filter isButtonOp ops;
          mainOps = filter (\<lambda>i. i \<notin> set buttonOps) ops;
          main = fold (placeMain rnd secName) mainOps (startX, st1);
          button = fold (placeButton rnd secName) buttonOps (startX, snd main)
      in (fst main, fst button, snd button))"

text \<open>Lines 178-179: all four cursors move to \<^verbatim>\<open>max(assemblyCursor, dCursor)\<close>.\<close>

definition resyncAll :: "rat \<times> rat \<times> gen_state \<Rightarrow> gen_state" where
  "resyncAll r =
     (let endX = max (fst r) (fst (snd r))
      in (snd (snd r)) \<lparr> cursors := (\<lambda>l. endX) \<rparr>)"

text \<open>
  The assembly branch of the section loop (lines 128-181). \<open>syncAll\<close> stores in every
  cursor the \<^verbatim>\<open>startX\<close> that the rest of the branch uses.
\<close>

definition placeAssembly ::
  "(nat \<Rightarrow> string) \<Rightarrow> string \<Rightarrow> balancedOp list \<Rightarrow> gen_state \<Rightarrow> gen_state" where
  "placeAssembly rnd secName ops st =
     (let startX = max4 (cursors st) + SECTION_GAP_X
      in resyncAll (assemblyPlace rnd secName ops startX (syncAll st)))"

subsection \<open>Parts preparation sections\<close>

definition firstLane :: "targetGroup \<Rightarrow> lane" where
  "firstLane g = (case g of AB \<Rightarrow> LaneA | CD \<Rightarrow> LaneC)"

definition secondLane :: "targetGroup \<Rightarrow> lane" where
  "secondLane g = (case g of AB \<Rightarrow> LaneB | CD \<Rightarrow> LaneD)"

text \<open>Lines 186-189; \<^verbatim>\<open>isAB\<close> is computed by the source and never read.\<close>

definition targetGroupOf :: "string \<Rightarrow> targetGroup" where
  "targetGroupOf secLower =
     (let isCD = list_ex (\<lambda>s. str_includes secLower s) cdSections
      in if isCD then CD else AB)"

definition pairMax :: "targetGroup \<Rightarrow> LaneCursors \<Rightarrow> rat" where
  "pairMax g c = (case g of AB \<Rightarrow> max (c LaneA) (c LaneB) | CD \<Rightarrow> max (c LaneC) (c LaneD))"

definition setPair :: "targetGroup \<Rightarrow> rat \<Rightarrow> LaneCursors \<Rightarrow> LaneCursors" where
  "setPair g v c =
     (case g of AB \<Rightarrow> c(LaneA := v, LaneB := v) | CD \<Rightarrow> c(LaneC := v, LaneD := v))"

text \<open>Lines 192-202: both cursors of the pair move to their maximum plus the gap.\<close>

definition syncPair :: "targetGroup \<Rightarrow> gen_state \<Rightarrow> gen_state" where
  "syncPair g st =
     (let startX = pairMax g (cursors st) + SECTION_GAP_X
      in st \<lparr> cursors := setPair g startX (cursors st) \<rparr>)"

text \<open>Lines 208-215: both cursors of the pair advance by \<^verbatim>\<open>BOARD_GAP\<close>.\<close>

definition boardClearance :: "targetGroup \<Rightarrow> gen_state \<Rightarrow> gen_state" where
  "boardClearance g st =
     st \<lparr> cursors :=
       (case g of
          AB \<Rightarrow> (cursors st)(LaneA := cursors st LaneA + BOARD_GAP,
                              LaneB := cursors st LaneB + BOARD_GAP)
        | CD \<Rightarrow> (cursors st)(LaneC := cursors st LaneC + BOARD_GAP,
                              LaneD := cursors st LaneD + BOARD_GAP)) \<rparr>"

text \<open>
  Lines 221-243, the body of \<^verbatim>\<open>ops.forEach\<close>; the accumulator carries the state and
  \<^verbatim>\<open>laneToggle\<close>. The inner loop carries \<^verbatim>\<open>xPos\<close>.
\<close>

definition placeOp ::
  "(nat \<Rightarrow> string) \<Rightarrow> targetGroup \<Rightarrow> string \<Rightarrow> balancedOp \<Rightarrow> gen_state \<times> lane
     \<Rightarrow> gen_state \<times> lane" where
  "placeOp rnd g secName item acc =
     (let operation = fst item; count = snd item;
          currentLane = snd acc;
          run = fold (\<lambda>k r.
                  (fst r + MACHINE_SPACING_X,
                   addMachine rnd operation currentLane (fst r) k None (Some secName) (snd r)))
                [0..<count] (cursors (fst acc) currentLane, fst acc);
          st = (snd run) \<lparr> cursors := (cursors (snd run))(currentLane := fst run) \<rparr>;
          laneToggle = (case g of
                          AB \<Rightarrow> if currentLane = LaneA then LaneB else LaneA
                        | CD \<Rightarrow> if currentLane = LaneC then LaneD else LaneC)
      in (st, laneToggle))"

text \<open>
  Lines 248-290: the inspection table, the trolley and the cursor update that follows
  them. \<open>inspectionEntity\<close> and \<open>trolleyEntity\<close> are the two object literals.
\<close>

definition inspectionEntity :: "targetGroup \<Rightarrow> string \<Rightarrow> rat \<Rightarrow> MachinePosition" where
  "inspectionEntity g secName inspectX =
     (let innerLane = (case g of AB \<Rightarrow> LaneA | CD \<Rightarrow> LaneC);
          innerZ = (case g of AB \<Rightarrow> LANE_Z_A | CD \<Rightarrow> LANE_Z_C)
      in \<lparr> ent_id = ''inspect-'' @ secName,
           operation = createDummyOp ''Inspection'' secName,
           position = \<lparr> vx = inspectX, vy = 0, vz = innerZ \<rparr>,
           rotation = \<lparr> vx = 0, vy = ROT_FACE_FRONT, vz = 0 \<rparr>,
           lane = innerLane,
           isInspection = True,
           isTrolley = False,
           ent_section = secName,
           machineIndex = None \<rparr>)"

definition trolleyEntity :: "targetGroup \<Rightarrow> string \<Rightarrow> rat \<Rightarrow> MachinePosition" where
  "trolleyEntity g secName inspectX =
     (let innerLane = (case g of AB \<Rightarrow> LaneA | CD \<Rightarrow> LaneC);
          innerZ = (case g of AB \<Rightarrow> LANE_Z_A | CD \<Rightarrow> LANE_Z_C)
      in \<lparr> ent_id = ''trolley-'' @ secName,
           operation = createDummyOp ''Trolley'' secName,
           position = \<lparr> vx = inspectX + 7 / 2, vy = 0,
                        vz = innerZ + (case g of AB \<Rightarrow> - 1 / 2 | CD \<Rightarrow> 1 / 2) \<rparr>,
           rotation = \<lparr> vx = 0, vy = ROT_FACE_RIGHT, vz = 0 \<rparr>,
           lane = innerLane,
           isInspection = False,
           isTrolley = True,
           ent_section = secName,
           machineIndex = None \<rparr>)"

definition endOfSection :: "targetGroup \<Rightarrow> string \<Rightarrow> gen_state \<Rightarrow> gen_state" where
  "endOfSection g secName st =
     (let endX = pairMax g (cursors st);
          inspectX = endX + SECTION_GAP_X / 2;
          nextStart = inspectX + 5 / 2
      in st \<lparr> layout := layout st @
                 [inspectionEntity g secName inspectX, trolleyEntity g secName inspectX],
              cursors := setPair g nextStart (cursors st) \<rparr>)"

text \<open>The parts-preparation branch of the section loop (lines 186-290).\<close>

definition placePrep ::
  "(nat \<Rightarrow> string) \<Rightarrow> string \<Rightarrow> balancedOp list \<Rightarrow> gen_state \<Rightarrow> gen_state" where
  "placePrep rnd secName ops st =
     (let g = targetGroupOf (toLowerCase secName);
          startX = pairMax g (cursors st) + SECTION_GAP_X;
          st1 = syncPair g st;
          st2 = addBoard rnd secName startX (case g of AB \<Rightarrow> LANE_Z_A | CD \<Rightarrow> LANE_Z_C) st1;
          st3 = boardClearance g st2;
          st4 = fst (fold (placeOp rnd g secName) ops (st3, firstLane g))
      in endOfSection g secName st4)"

subsection \<open>The section loop and the entry point\<close>

text \<open>
  The body of \<^verbatim>\<open>sectionOrder.forEach\<close>. \<^verbatim>\<open>sectionsMap.get(secName)!\<close> is defined for
  every name in \<^verbatim>\<open>sectionOrder\<close> (lemma \<open>groupBySection_dom\<close>); the \<open>None\<close> branch is
  never taken.
\<close>

definition placeSection ::
  "(nat \<Rightarrow> string) \<Rightarrow> (string \<rightharpoonup> balancedOp list) \<Rightarrow> string \<Rightarrow> gen_state \<Rightarrow> gen_state" where
  "placeSection rnd sectionsMap secName st =
     (let secLower = toLowerCase secName;
          ops = (case sectionsMap secName of Some bucket \<Rightarrow> bucket | None \<Rightarrow> [])
      in if str_includes secLower assemblySection
         then placeAssembly rnd secName ops st
         else placePrep rnd secName ops st)"

definition initState :: gen_state where
  "initState = \<lparr> layout = [], cursors = (\<lambda>l. 0), uuid_calls = 0 \<rparr>"

text \<open>Lines 46-309: everything \<^verbatim>\<open>generateLayout\<close> does with \<^verbatim>\<open>balancedOps\<close>.\<close>

definition placeAll :: "(nat \<Rightarrow> string) \<Rightarrow> balancedOp list \<Rightarrow> gen_state" where
  "placeAll rnd balancedOps =
     (let grouped = groupBySection balancedOps
      in fold (placeSection rnd (fst grouped)) (snd grouped) initState)"

text \<open>
  Modelled from the spec: \<^verbatim>\<open>calculateMachineRequirements\<close> of the module
  \<^verbatim>\<open>./lineBalancing\<close>, which is imported by the layout generator and is not among the
  source files. The spec's CapacityPlanner: the call fails with \<open>InvalidDemand\<close> unless
  both the target output and the working minutes are positive; otherwise every operation,
  in input order, gets \<open>ceil(smv * target / working)\<close> machines, and an operation with
  zero processing time still gets exactly one (never zero).
\<close>

definition calculateMachineRequirements ::
  "Operation list \<Rightarrow> rat \<Rightarrow> rat \<Rightarrow> error + balancedOp list" where
  "calculateMachineRequirements operations targetOutput workingMinutes =
     (if targetOutput \<le> 0 \<or> workingMinutes \<le> 0 then Inl InvalidDemand
      else Inr (map (\<lambda>op. (op, nat (max 1 \<lceil>smv op * targetOutput / workingMinutes\<rceil>)))
                  operations))"

text \<open>
  \<^verbatim>\<open>generateLayout(rawOperations, targetOutput, workingHours)\<close>. The source has no
  \<^verbatim>\<open>try\<close>: an exception of \<^verbatim>\<open>calculateMachineRequirements\<close> leaves the function
  before \<^verbatim>\<open>layout\<close> is returned.
\<close>

definition generateLayout ::
  "(nat \<Rightarrow> string) \<Rightarrow> Operation list \<Rightarrow> rat \<Rightarrow> rat \<Rightarrow> error + MachinePosition list" where
  "generateLayout rnd rawOperations targetOutput workingHours =
     (case calculateMachineRequirements rawOperations targetOutput workingHours of
        Inl e \<Rightarrow> Inl e
      | Inr balancedOps \<Rightarrow> Inr (layout (placeAll rnd balancedOps)))"

subsection \<open>Vocabulary of the properties\<close>

text \<open>
  A machine-class entity is one pushed by \<^verbatim>\<open>addMachine\<close>: it carries a sequence index
  \<open>0, 1, ...\<close>. Boards carry \<open>-1\<close>; the inspection table and the trolley carry none.
\<close>

definition isMachine :: "MachinePosition \<Rightarrow> bool" where
  "isMachine e = (case machineIndex e of Some k \<Rightarrow> 0 \<le> k | None \<Rightarrow> False)"

definition isBoard :: "MachinePosition \<Rightarrow> bool" where
  "isBoard e = (machineIndex e = Some (- 1))"

text \<open>The slot of an entity: its lane and its along-line offset.\<close>

definition slot :: "MachinePosition \<Rightarrow> lane \<times> rat" where
  "slot e = (lane e, vx (position e))"

definition noSharedSlot :: "MachinePosition list \<Rightarrow> bool" where
  "noSharedSlot lay = distinct (map slot (filter isMachine lay))"

text \<open>An entity without its identifier.\<close>

definition stripId :: "MachinePosition \<Rightarrow> MachinePosition" where
  "stripId e = e \<lparr> ent_id := [] \<rparr>"

text \<open>One cursor object is nowhere behind another.\<close>

definition cursors_le :: "LaneCursors \<Rightarrow> LaneCursors \<Rightarrow> bool" where
  "cursors_le c c' =
     (c LaneA \<le> c' LaneA \<and> c LaneB \<le> c' LaneB \<and> c LaneC \<le> c' LaneC \<and> c LaneD \<le> c' LaneD)"

text \<open>
  First-seen order: the distinct elements of a list, each at its first occurrence.
\<close>

fun firstSeen :: "'a list \<Rightarrow> 'a list" where
  "firstSeen [] = []"
| "firstSeen (x # xs) = x # filter (\<lambda>y. y \<noteq> x) (firstSeen xs)"

text \<open>
  The entities a counted loop of \<^verbatim>\<open>addMachine\<close> calls appends: instance \<open>k\<close> goes to
  lane \<open>L k\<close> at offset \<open>X k\<close>, with the identifier of the \<open>(u0 + k)\<close>-th
  \<^verbatim>\<open>uuidv4\<close> call.
\<close>

definition machines ::
  "(nat \<Rightarrow> string) \<Rightarrow> nat \<Rightarrow> Operation \<Rightarrow> (nat \<Rightarrow> lane) \<Rightarrow> (nat \<Rightarrow> rat) \<Rightarrow> rat option
     \<Rightarrow> string option \<Rightarrow> nat \<Rightarrow> MachinePosition list" where
  "machines rnd u0 op L X f s n =
     map (\<lambda>k. machineEntity (rnd (u0 + k)) op (L k) (X k) k f s) [0..<n]"

text \<open>The lane \<^verbatim>\<open>laneToggle\<close> takes after an operation.\<close>

definition toggleLane :: "targetGroup \<Rightarrow> lane \<Rightarrow> lane" where
  "toggleLane g la = (case g of AB \<Rightarrow> if la = LaneA then LaneB else LaneA
                        | CD \<Rightarrow> if la = LaneC then LaneD else LaneC)"


text \<open>
  The kinds of objects the section loop pushes, with what the pushing code fixes about
  each: a machine of a parts-preparation section (no forced rotation, one of the two lanes
  of the section's pair), a machine of a main or of a buttoning operation of an assembly
  section (rotation forced to front), a board, an inspection table, a trolley.
\<close>

inductive emitted :: "MachinePosition \<Rightarrow> bool" where
  prep: "s \<noteq> [] \<Longrightarrow> \<not> str_includes (toLowerCase s) assemblySection \<Longrightarrow>
         la = firstLane (targetGroupOf (toLowerCase s)) \<or>
         la = secondLane (targetGroupOf (toLowerCase s)) \<Longrightarrow>
         emitted (machineEntity u op la x k None (Some s))"
| main: "s \<noteq> [] \<Longrightarrow> str_includes (toLowerCase s) assemblySection \<Longrightarrow>
         \<not> isButtonOp (op, n) \<Longrightarrow>
         emitted (machineEntity u op ([LaneA, LaneB, LaneC] ! (k mod 3)) x k
                    (Some ROT_FACE_FRONT) (Some s))"
| button: "s \<noteq> [] \<Longrightarrow> str_includes (toLowerCase s) assemblySection \<Longrightarrow>
         isButtonOp (op, n) \<Longrightarrow>
         emitted (machineEntity u op LaneD x k (Some ROT_FACE_FRONT) (Some s))"
| board: "emitted (boardEntity u name x z)"
| inspection: "emitted (inspectionEntity g s x)"
| trolley: "emitted (trolleyEntity g s x)"

text \<open>Example operations.\<close>

definition untimedOp :: Operation where
  "untimedOp = \<lparr> op_no = ''1'', op_name = ''Mark'', machine_type = ''Table'', smv = 0,
                  op_section = ''Cuff'' \<rparr>"

definition cuffOp :: Operation where
  "cuffOp = \<lparr> op_no = ''1'', op_name = ''Hem cuff'', machine_type = ''SNLS'', smv = 1,
               op_section = ''Cuff'' \<rparr>"

definition pressOp :: Operation where
  "pressOp = \<lparr> op_no = ''2'', op_name = ''Press cuff'', machine_type = ''Steam Press'', smv = 1,
                op_section = ''Cuff'' \<rparr>"

definition joinOp :: Operation where
  "joinOp = \<lparr> op_no = ''3'', op_name = ''Join shoulder'', machine_type = ''SNLS'', smv = 3,
               op_section = ''Assembly'' \<rparr>"

definition buttonOp :: Operation where
  "buttonOp = \<lparr> op_no = ''4'', op_name = ''Sew button'', machine_type = ''BS'', smv = 2,
                 op_section = ''Assembly'' \<rparr>"

text \<open>
  Every machine of a layout lies before the bound of its lane. With the cursors as
  bounds this is what the section loop maintains.
\<close>

definition withinBounds :: "LaneCursors \<Rightarrow> MachinePosition list \<Rightarrow> bool" where
  "withinBounds b lay = (\<forall>e\<in>set lay. isMachine e \<longrightarrow> vx (position e) < b (lane e))"

text \<open>
  The bounds inside an assembly section, where the cursors are not updated:
  \<^verbatim>\<open>assemblyCursor\<close> for the lanes A, B, C and \<^verbatim>\<open>dCursor\<close> for lane D.
\<close>

definition assemblyBounds :: "rat \<Rightarrow> rat \<Rightarrow> LaneCursors" where
  "assemblyBounds c d l = (if l = LaneD then d else c)"

text \<open>Two states of two calls that differ in identifiers only.\<close>

definition sameButIds :: "gen_state \<Rightarrow> gen_state \<Rightarrow> bool" where
  "sameButIds st st' =
     (map stripId (layout st) = map stripId (layout st') \<and> cursors st = cursors st')"

text \<open>
  The operations of one section, in input order; and the state of the call when the
  section loop reaches the section at position \<open>p\<close> of the section order.
\<close>

definition sectionBucket :: "balancedOp list \<Rightarrow> string \<Rightarrow> balancedOp list" where
  "sectionBucket bal secName = filter (\<lambda>i. sectionKey i = secName) bal"

definition sectionStart :: "(nat \<Rightarrow> string) \<Rightarrow> balancedOp list \<Rightarrow> nat \<Rightarrow> gen_state" where
  "sectionStart rnd bal p =
     fold (placeSection rnd (fst (groupBySection bal))) (take p (snd (groupBySection bal)))
       initState"

text \<open>
  Alternation per operation, in the spec's words: the operation at (zero-based) position
  \<open>j\<close> of a section goes to the pair's first lane when \<open>j\<close> is even and to the second
  when \<open>j\<close> is odd; \<open>laneSum\<close> is the number of machines the operations of a list send
  to one lane.
\<close>

definition runLane :: "targetGroup \<Rightarrow> nat \<Rightarrow> lane" where
  "runLane g j = (if even j then firstLane g else secondLane g)"

definition laneSum :: "targetGroup \<Rightarrow> lane \<Rightarrow> balancedOp list \<Rightarrow> nat" where
  "laneSum g la xs =
     sum_list (map (\<lambda>j. snd (xs ! j)) (filter (\<lambda>j. runLane g j = la) [0..<length xs]))"

text \<open>
  The order in which a section's operations are walked: a parts-preparation section walks
  its bucket as it is; an assembly section walks the main operations, then the buttoning
  ones. \<open>runOf\<close> is the sequence of operations of the machines one item yields.
\<close>

definition walkOrder :: "string \<Rightarrow> balancedOp list \<Rightarrow> balancedOp list" where
  "walkOrder secName bucket =
     (if str_includes (toLowerCase secName) assemblySection
      then filter (\<lambda>i. \<not> isButtonOp i) bucket @ filter isButtonOp bucket
      else bucket)"

definition runOf :: "balancedOp \<Rightarrow> Operation list" where
  "runOf item = replicate (snd item) (fst item)"

definition boardName :: "string \<Rightarrow> string" where
  "boardName secName =
     (if str_includes (toLowerCase secName) assemblySection then ''Assembly'' else secName)"

definition hemOp :: Operation where
  "hemOp = \<lparr> op_no = ''5'', op_name = ''Hem sleeve'', machine_type = ''SNLS'', smv = 2,
              op_section = ''Sleeve'' \<rparr>"

text \<open>
  What a returned list shows of the order of the walk: the operations of its machines
  and the sections of its boards, both in list order.
\<close>

definition machineOps :: "MachinePosition list \<Rightarrow> Operation list" where
  "machineOps lay = map operation (filter isMachine lay)"

definition boardSections :: "MachinePosition list \<Rightarrow> string list" where
  "boardSections lay = map ent_section (filter isBoard lay)"

text \<open>An identifier generator that always returns the same string.\<close>

definition sampleUuid :: "nat \<Rightarrow> string" where
  "sampleUuid n = ''u''"

definition tackOp :: Operation where
  "tackOp = \<lparr> op_no = ''6'', op_name = ''Tack sleeve'', machine_type = ''Bartack'', smv = 1,
               op_section = ''Sleeve'' \<rparr>"

section \<open>Proofs\<close>

subsection \<open>What the loops append\<close>


lemma addMachine_simps [simp]:
  "layout (addMachine rnd op la x k f s st) =
     layout st @ [machineEntity (rnd (uuid_calls st)) op la x k f s]"
  "cursors (addMachine rnd op la x k f s st) = cursors st"
  "uuid_calls (addMachine rnd op la x k f s st) = Suc (uuid_calls st)"
  by (simp_all add: addMachine_def)

lemma addBoard_simps [simp]:
  "layout (addBoard rnd name x z st) = layout st @ [boardEntity (rnd (uuid_calls st)) name x z]"
  "cursors (addBoard rnd name x z st) = cursors st"
  "uuid_calls (addBoard rnd name x z st) = Suc (uuid_calls st)"
  by (simp_all add: addBoard_def)

lemma machines_Suc:
  "machines rnd u0 op L X f s (Suc n) =
     machines rnd u0 op L X f s n @ [machineEntity (rnd (u0 + n)) op (L n) (X n) n f s]"
  by (simp add: machines_def)

lemma machines_0 [simp]: "machines rnd u0 op L X f s 0 = []"
  by (simp add: machines_def)

lemma length_machines [simp]: "length (machines rnd u0 op L X f s n) = n"
  by (simp add: machines_def)

lemma nth_machines:
  "k < n \<Longrightarrow> machines rnd u0 op L X f s n ! k = machineEntity (rnd (u0 + k)) op (L k) (X k) k f s"
  by (simp add: machines_def)

lemma fold_addMachine:
  "fold (\<lambda>k st. addMachine rnd op (L k) (X k) k f s st) [0..<n] st =
     st \<lparr> layout := layout st @ machines rnd (uuid_calls st) op L X f s n,
          uuid_calls := uuid_calls st + n \<rparr>"
  by (induction n) (simp_all add: machines_Suc)

lemma fold_addMachine_run:
  "fold (\<lambda>k r. (fst r + d, addMachine rnd op la (fst r) k f s (snd r))) [0..<n] (x0, st) =
     (x0 + of_nat n * d,
      st \<lparr> layout := layout st @
                machines rnd (uuid_calls st) op (\<lambda>k. la) (\<lambda>k. x0 + of_nat k * d) f s n,
           uuid_calls := uuid_calls st + n \<rparr>)"
  by (induction n) (simp_all add: machines_Suc algebra_simps)

lemma placeOp_closed:
  "placeOp rnd g sec (op, n) (st, tg) =
     (st \<lparr> layout := layout st @
               machines rnd (uuid_calls st) op (\<lambda>k. tg)
                 (\<lambda>k. cursors st tg + of_nat k * MACHINE_SPACING_X) None (Some sec) n,
           cursors := (cursors st)(tg := cursors st tg + of_nat n * MACHINE_SPACING_X),
           uuid_calls := uuid_calls st + n \<rparr>,
      toggleLane g tg)"
  by (simp add: placeOp_def fold_addMachine_run toggleLane_def)

lemma placeMain_closed:
  "placeMain rnd sec (op, n) (c, st) =
     (c + of_int \<lceil>(of_nat n :: rat) / 3\<rceil> * MACHINE_SPACING_X,
      st \<lparr> layout := layout st @
               machines rnd (uuid_calls st) op (\<lambda>k. [LaneA, LaneB, LaneC] ! (k mod 3))
                 (\<lambda>k. c + of_nat (k div 3) * MACHINE_SPACING_X)
                 (Some ROT_FACE_FRONT) (Some sec) n,
           uuid_calls := uuid_calls st + n \<rparr>)"
  by (simp add: placeMain_def Let_def fold_addMachine)

lemma placeButton_closed:
  "placeButton rnd sec (op, n) (c, st) =
     (c + of_nat n * MACHINE_SPACING_X,
      st \<lparr> layout := layout st @
               machines rnd (uuid_calls st) op (\<lambda>k. LaneD)
                 (\<lambda>k. c + of_nat k * MACHINE_SPACING_X)
                 (Some ROT_FACE_FRONT) (Some sec) n,
           uuid_calls := uuid_calls st + n \<rparr>)"
  by (simp add: placeButton_def fold_addMachine_run)

subsection \<open>Capacity planning and the demand precondition\<close>

text \<open>
  C1. With a positive target and positive working minutes the capacity planning step keeps
  every operation, in input order. An operation with positive processing time gets
  \<open>ceil(smv * target / working)\<close> machines, an operation with zero processing time
  gets exactly one, and every operation gets at least one.
\<close>

theorem requiredCount_formula:
  assumes "0 < targetOutput" and "0 < workingMinutes"
  shows "\<exists>bal. calculateMachineRequirements ops targetOutput workingMinutes = Inr bal \<and>
           map fst bal = ops \<and>
           (\<forall>i < length ops.
              1 \<le> snd (bal ! i) \<and>
              (0 < smv (ops ! i) \<longrightarrow>
                 int (snd (bal ! i)) = \<lceil>smv (ops ! i) * targetOutput / workingMinutes\<rceil>) \<and>
              (smv (ops ! i) = 0 \<longrightarrow> snd (bal ! i) = 1))"
proof -
  let ?c = "\<lambda>op. nat (max 1 \<lceil>smv op * targetOutput / workingMinutes\<rceil>)"
  let ?bal = "map (\<lambda>op. (op, ?c op)) ops"
  have run: "calculateMachineRequirements ops targetOutput workingMinutes = Inr ?bal"
    using assms by (simp add: calculateMachineRequirements_def)
  have fsts: "map fst ?bal = ops"
    by (simp add: comp_def)
  have each: "1 \<le> ?c op \<and>
      (0 < smv op \<longrightarrow> int (?c op) = \<lceil>smv op * targetOutput / workingMinutes\<rceil>) \<and>
      (smv op = 0 \<longrightarrow> ?c op = 1)" for op
  proof -
    have "0 < smv op \<Longrightarrow> 1 \<le> \<lceil>smv op * targetOutput / workingMinutes\<rceil>"
    proof -
      assume "0 < smv op"
      then have "0 < smv op * targetOutput / workingMinutes"
        using assms by simp
      then have "0 < \<lceil>smv op * targetOutput / workingMinutes\<rceil>"
        by (simp only: zero_less_ceiling)
      then show ?thesis by linarith
    qed
    then show ?thesis by auto
  qed
  have nth: "snd (?bal ! i) = ?c (ops ! i)" if "i < length ops" for i
    using that by simp
  have "1 \<le> snd (?bal ! i) \<and>
        (0 < smv (ops ! i) \<longrightarrow>
           int (snd (?bal ! i)) = \<lceil>smv (ops ! i) * targetOutput / workingMinutes\<rceil>) \<and>
        (smv (ops ! i) = 0 \<longrightarrow> snd (?bal ! i) = 1)" if "i < length ops" for i
    unfolding nth [OF that] by (rule each)
  with run fsts show ?thesis
    by blast
qed

theorem requiredCount_formula_witness:
  "(0::rat) < 480 \<and>
   calculateMachineRequirements [hemOp, untimedOp] 480 480 = Inr [(hemOp, 2), (untimedOp, 1)]"
  using requiredCount_formula [of 480 480 "[hemOp, untimedOp]"]
  by (simp add: hemOp_def untimedOp_def calculateMachineRequirements_def)

text \<open>
  The formula alone does not give the count of an operation without timing data: for
  \<open>untimedOp\<close> (\<open>smv = 0\<close>) the ceiling is 0 and the count is 1.
\<close>

theorem requiredCount_zero_smv_counterexample:
  "calculateMachineRequirements [untimedOp] 480 480 = Inr [(untimedOp, 1)] \<and>
   int 1 \<noteq> \<lceil>smv untimedOp * 480 / 480\<rceil>"
  by (simp add: calculateMachineRequirements_def untimedOp_def)

text \<open>
  C7. The call fails with \<open>InvalidDemand\<close> exactly when the target output or the working
  minutes are not positive; a failed call returns no layout at all, and otherwise a
  layout is returned. A target of zero fails.
\<close>

theorem generateLayout_InvalidDemand:
  "(generateLayout rnd ops targetOutput workingMinutes = Inl InvalidDemand)
     = (targetOutput \<le> 0 \<or> workingMinutes \<le> 0) \<and>
   (\<exists>lay. generateLayout rnd ops targetOutput workingMinutes = Inr lay)
     = (0 < targetOutput \<and> 0 < workingMinutes) \<and>
   generateLayout rnd ops 0 workingMinutes = Inl InvalidDemand"
  by (auto simp add: generateLayout_def calculateMachineRequirements_def)

theorem generateLayout_InvalidDemand_witness:
  "generateLayout (\<lambda>n. ''u'') [cuffOp] 0 480 = Inl InvalidDemand \<and>
   generateLayout (\<lambda>n. ''u'') [cuffOp] 480 (- 1) = Inl InvalidDemand \<and>
   (\<exists>lay. generateLayout (\<lambda>n. ''u'') [cuffOp] 480 480 = Inr lay)"
  using generateLayout_InvalidDemand [of "\<lambda>n. ''u''" "[cuffOp]" 0 480]
    generateLayout_InvalidDemand [of "\<lambda>n. ''u''" "[cuffOp]" 480 "- 1"]
    generateLayout_InvalidDemand [of "\<lambda>n. ''u''" "[cuffOp]" 480 480]
  by simp

subsection \<open>Every pushed object is of a known kind\<close>

lemma list_all_machines:
  "list_all P (machines rnd u0 op L X f s n) =
     (\<forall>k<n. P (machineEntity (rnd (u0 + k)) op (L k) (X k) k f s))"
  by (auto simp add: machines_def list_all_iff)

lemma isButtonOp_count: "isButtonOp (op, n) = isButtonOp (op, m)"
  by (simp add: isButtonOp_def)

lemma toggleLane_pair:
  "tg = firstLane g \<or> tg = secondLane g \<Longrightarrow>
   toggleLane g tg = firstLane g \<or> toggleLane g tg = secondLane g"
  by (cases g) (auto simp add: toggleLane_def firstLane_def secondLane_def)

lemma placeOp_emitted:
  assumes "list_all emitted (layout st)" and "s \<noteq> []"
    and "\<not> str_includes (toLowerCase s) assemblySection"
    and "g = targetGroupOf (toLowerCase s)"
    and "tg = firstLane g \<or> tg = secondLane g"
  shows "list_all emitted (layout (fst (placeOp rnd g s item (st, tg))))"
    and "snd (placeOp rnd g s item (st, tg)) = firstLane g \<or>
         snd (placeOp rnd g s item (st, tg)) = secondLane g"
proof -
  obtain op n where item: "item = (op, n)" by (cases item)
  show "list_all emitted (layout (fst (placeOp rnd g s item (st, tg))))"
    using assms by (simp add: item placeOp_closed list_all_machines emitted.prep)
  show "snd (placeOp rnd g s item (st, tg)) = firstLane g \<or>
        snd (placeOp rnd g s item (st, tg)) = secondLane g"
    using assms(5) by (simp add: item placeOp_closed toggleLane_pair)
qed

lemma fold_placeOp_emitted:
  assumes "list_all emitted (layout st)" and "s \<noteq> []"
    and "\<not> str_includes (toLowerCase s) assemblySection"
    and "g = targetGroupOf (toLowerCase s)"
    and "tg = firstLane g \<or> tg = secondLane g"
  shows "list_all emitted (layout (fst (fold (placeOp rnd g s) ops (st, tg))))"
  using assms(1,5)
proof (induction ops arbitrary: st tg)
  case Nil
  then show ?case by simp
next
  case (Cons item ops)
  obtain st' tg' where step: "placeOp rnd g s item (st, tg) = (st', tg')"
    by (cases "placeOp rnd g s item (st, tg)")
  have "list_all emitted (layout st')" and "tg' = firstLane g \<or> tg' = secondLane g"
    using placeOp_emitted [OF Cons.prems(1) assms(2,3,4) Cons.prems(2), of rnd item] step
    by simp_all
  then show ?case
    using Cons.IH [of st' tg'] step by simp
qed

lemma fold_placeMain_emitted:
  assumes "s \<noteq> []" and "str_includes (toLowerCase s) assemblySection"
    and "\<forall>i\<in>set ops. \<not> isButtonOp i" and "list_all emitted (layout (snd acc))"
  shows "list_all emitted (layout (snd (fold (placeMain rnd s) ops acc)))"
  using assms(3,4)
proof (induction ops arbitrary: acc)
  case Nil
  then show ?case by simp
next
  case (Cons item ops)
  obtain op n where item: "item = (op, n)" by (cases item)
  obtain c st where acc: "acc = (c, st)" by (cases acc)
  have "\<not> isButtonOp (op, n)"
    using Cons.prems(1) item by simp
  then have "list_all emitted (layout (snd (placeMain rnd s item acc)))"
    using Cons.prems(2) assms(1,2)
    by (simp add: item acc placeMain_closed list_all_machines emitted.main)
  then show ?case
    using Cons.IH [of "placeMain rnd s item acc"] Cons.prems(1) by simp
qed

lemma fold_placeButton_emitted:
  assumes "s \<noteq> []" and "str_includes (toLowerCase s) assemblySection"
    and "\<forall>i\<in>set ops. isButtonOp i" and "list_all emitted (layout (snd acc))"
  shows "list_all emitted (layout (snd (fold (placeButton rnd s) ops acc)))"
  using assms(3,4)
proof (induction ops arbitrary: acc)
  case Nil
  then show ?case by simp
next
  case (Cons item ops)
  obtain op n where item: "item = (op, n)" by (cases item)
  obtain c st where acc: "acc = (c, st)" by (cases acc)
  have "isButtonOp (op, n)"
    using Cons.prems(1) item by simp
  then have "list_all emitted (layout (snd (placeButton rnd s item acc)))"
    using Cons.prems(2) assms(1,2)
    by (simp add: item acc placeButton_closed list_all_machines emitted.button)
  then show ?case
    using Cons.IH [of "placeButton rnd s item acc"] Cons.prems(1) by simp
qed

lemma syncAll_simps [simp]:
  "layout (syncAll st) = layout st"
  "uuid_calls (syncAll st) = uuid_calls st"
  "cursors (syncAll st) = (\<lambda>l. max4 (cursors st) + SECTION_GAP_X)"
  by (simp_all add: syncAll_def)

lemma syncPair_simps [simp]:
  "layout (syncPair g st) = layout st"
  "uuid_calls (syncPair g st) = uuid_calls st"
  "cursors (syncPair g st) = setPair g (pairMax g (cursors st) + SECTION_GAP_X) (cursors st)"
  by (simp_all add: syncPair_def)

lemma boardClearance_simps [simp]:
  "layout (boardClearance g st) = layout st"
  "uuid_calls (boardClearance g st) = uuid_calls st"
  by (simp_all add: boardClearance_def)

lemma endOfSection_simps [simp]:
  "layout (endOfSection g s st) =
     layout st @ [inspectionEntity g s (pairMax g (cursors st) + SECTION_GAP_X / 2),
                  trolleyEntity g s (pairMax g (cursors st) + SECTION_GAP_X / 2)]"
  "uuid_calls (endOfSection g s st) = uuid_calls st"
  "cursors (endOfSection g s st) =
     setPair g (pairMax g (cursors st) + SECTION_GAP_X / 2 + 5 / 2) (cursors st)"
  by (simp_all add: endOfSection_def Let_def)

lemma resyncAll_simps [simp]:
  "layout (resyncAll r) = layout (snd (snd r))"
  "uuid_calls (resyncAll r) = uuid_calls (snd (snd r))"
  "cursors (resyncAll r) = (\<lambda>l. max (fst r) (fst (snd r)))"
  by (simp_all add: resyncAll_def)

lemma placeAssembly_emitted:
  assumes "list_all emitted (layout st)" and "s \<noteq> []"
    and "str_includes (toLowerCase s) assemblySection"
  shows "list_all emitted (layout (placeAssembly rnd s ops st))"
proof -
  let ?x = "max4 (cursors st) + SECTION_GAP_X"
  let ?st1 = "addBoard rnd ''Assembly'' ?x 0 (syncAll st)"
  let ?buttonOps = "filter isButtonOp ops"
  let ?mainOps = "filter (\<lambda>i. i \<notin> set ?buttonOps) ops"
  let ?main = "fold (placeMain rnd s) ?mainOps (?x, ?st1)"
  let ?button = "fold (placeButton rnd s) ?buttonOps (?x, snd ?main)"
  have "list_all emitted (layout ?st1)"
    using assms(1) by (simp add: emitted.board)
  then have "list_all emitted (layout (snd ?main))"
    by (intro fold_placeMain_emitted assms) auto
  then have "list_all emitted (layout (snd ?button))"
    by (intro fold_placeButton_emitted assms) auto
  then show ?thesis
    by (simp add: placeAssembly_def assemblyPlace_def Let_def)
qed

lemma placePrep_emitted:
  assumes "list_all emitted (layout st)" and "s \<noteq> []"
    and "\<not> str_includes (toLowerCase s) assemblySection"
  shows "list_all emitted (layout (placePrep rnd s ops st))"
proof -
  let ?g = "targetGroupOf (toLowerCase s)"
  let ?st1 = "syncPair ?g st"
  let ?st2 = "addBoard rnd s (pairMax ?g (cursors st) + SECTION_GAP_X)
                (case ?g of AB \<Rightarrow> LANE_Z_A | CD \<Rightarrow> LANE_Z_C) ?st1"
  let ?st3 = "boardClearance ?g ?st2"
  have "list_all emitted (layout ?st3)"
    using assms(1) by (simp add: emitted.board)
  then have "list_all emitted (layout (fst (fold (placeOp rnd ?g s) ops (?st3, firstLane ?g))))"
    by (intro fold_placeOp_emitted assms) simp_all
  then show ?thesis
    by (simp add: placePrep_def Let_def emitted.inspection emitted.trolley)
qed

lemma placeSection_emitted:
  assumes "list_all emitted (layout st)" and "s \<noteq> []"
  shows "list_all emitted (layout (placeSection rnd m s st))"
  using assms by (simp add: placeSection_def Let_def placeAssembly_emitted placePrep_emitted)

lemma fold_placeSection_emitted:
  assumes "list_all emitted (layout st)" and "\<forall>s\<in>set secs. s \<noteq> []"
  shows "list_all emitted (layout (fold (placeSection rnd m) secs st))"
  using assms by (induction secs arbitrary: st) (simp_all add: placeSection_emitted)

subsection \<open>Grouping\<close>

lemma set_firstSeen [simp]: "set (firstSeen xs) = set xs"
  by (induction xs) auto

lemma firstSeen_snoc:
  "firstSeen (ys @ [y]) = (if y \<in> set ys then firstSeen ys else firstSeen ys @ [y])"
  by (induction ys) auto

lemma distinct_firstSeen: "distinct (firstSeen xs)"
  by (induction xs) auto

lemma groupBySection_snoc:
  "groupBySection (xs @ [x]) = groupStep x (groupBySection xs)"
  by (simp add: groupBySection_def)

lemma groupBySection_char:
  "fst (groupBySection xs) =
     (\<lambda>s. if s \<in> sectionKey ` set xs then Some (filter (\<lambda>i. sectionKey i = s) xs) else None) \<and>
   snd (groupBySection xs) = firstSeen (map sectionKey xs)"
proof (induction xs rule: rev_induct)
  case Nil
  then show ?case by (simp add: groupBySection_def)
next
  case (snoc x xs)
  show ?case
  proof (cases "sectionKey x \<in> sectionKey ` set xs")
    case True
    with snoc show ?thesis
      by (auto simp add: groupBySection_snoc groupStep_def Let_def firstSeen_snoc fun_eq_iff)
  next
    case False
    then have "filter (\<lambda>i. sectionKey i = sectionKey x) xs = []"
      unfolding filter_empty_conv by (metis imageI)
    with False snoc show ?thesis
      by (auto simp add: groupBySection_snoc groupStep_def Let_def firstSeen_snoc fun_eq_iff)
  qed
qed

lemma groupBySection_dom:
  "s \<in> set (snd (groupBySection xs)) \<Longrightarrow>
   fst (groupBySection xs) s = Some (filter (\<lambda>i. sectionKey i = s) xs)"
  by (simp add: groupBySection_char)

lemma sectionKey_nonempty: "sectionKey i \<noteq> []"
  by (simp add: sectionKey_def)

lemma sectionOrder_nonempty: "\<forall>s\<in>set (snd (groupBySection xs)). s \<noteq> []"
  by (auto simp add: groupBySection_char sectionKey_nonempty)

lemma placeAll_emitted: "list_all emitted (layout (placeAll rnd bal))"
  by (simp add: placeAll_def Let_def fold_placeSection_emitted sectionOrder_nonempty initState_def)

subsection \<open>Cursors\<close>

lemma cursors_le_refl [simp]: "cursors_le c c"
  by (simp add: cursors_le_def)

lemma cursors_le_trans: "cursors_le a b \<Longrightarrow> cursors_le b c \<Longrightarrow> cursors_le a c"
  by (auto simp add: cursors_le_def)

lemma cursors_le_setPair: "pairMax g c \<le> v \<Longrightarrow> cursors_le c (setPair g v c)"
  by (cases g) (auto simp add: cursors_le_def setPair_def pairMax_def)

lemma cursors_le_const: "max4 c \<le> v \<Longrightarrow> cursors_le c (\<lambda>l. v)"
  by (auto simp add: cursors_le_def max4_def)

lemma cursors_le_upd: "c la \<le> v \<Longrightarrow> cursors_le c (c(la := v))"
  by (auto simp add: cursors_le_def)

lemma cursors_boardClearance: "cursors_le (cursors st) (cursors (boardClearance g st))"
  by (cases g) (auto simp add: cursors_le_def boardClearance_def BOARD_GAP_def)

lemma cursors_placeOp: "cursors_le (cursors st) (cursors (fst (placeOp rnd g s item (st, tg))))"
  by (cases item) (simp add: placeOp_closed cursors_le_upd MACHINE_SPACING_X_def)

lemma cursors_fold_placeOp:
  "cursors_le (cursors st) (cursors (fst (fold (placeOp rnd g s) ops (st, tg))))"
proof (induction ops arbitrary: st tg)
  case Nil
  then show ?case by simp
next
  case (Cons item ops)
  obtain st' tg' where step: "placeOp rnd g s item (st, tg) = (st', tg')"
    by (cases "placeOp rnd g s item (st, tg)")
  have "cursors_le (cursors st) (cursors st')"
    using cursors_placeOp [of st rnd g s item tg] step by simp
  then show ?case
    using Cons.IH [of st' tg'] step by (auto intro: cursors_le_trans)
qed

lemma fold_placeMain_cursor:
  "fst acc \<le> fst (fold (placeMain rnd s) ops acc) \<and>
   cursors (snd (fold (placeMain rnd s) ops acc)) = cursors (snd acc)"
proof (induction ops arbitrary: acc)
  case Nil
  then show ?case by simp
next
  case (Cons item ops)
  obtain op n where item: "item = (op, n)" by (cases item)
  obtain c st where acc: "acc = (c, st)" by (cases acc)
  have "(0::int) \<le> \<lceil>(of_nat n :: rat) / 3\<rceil>"
    by (simp add: ceiling_le_iff le_ceiling_iff)
  then have "fst acc \<le> fst (placeMain rnd s item acc) \<and>
        cursors (snd (placeMain rnd s item acc)) = cursors (snd acc)"
    by (simp add: item acc placeMain_closed MACHINE_SPACING_X_def)
  then show ?case
    using Cons.IH [of "placeMain rnd s item acc"] by auto
qed

lemma fold_placeButton_cursor:
  "fst acc \<le> fst (fold (placeButton rnd s) ops acc) \<and>
   cursors (snd (fold (placeButton rnd s) ops acc)) = cursors (snd acc)"
proof (induction ops arbitrary: acc)
  case Nil
  then show ?case by simp
next
  case (Cons item ops)
  obtain op n where item: "item = (op, n)" by (cases item)
  obtain c st where acc: "acc = (c, st)" by (cases acc)
  have "fst acc \<le> fst (placeButton rnd s item acc) \<and>
        cursors (snd (placeButton rnd s item acc)) = cursors (snd acc)"
    by (simp add: item acc placeButton_closed MACHINE_SPACING_X_def)
  then show ?case
    using Cons.IH [of "placeButton rnd s item acc"] by auto
qed

lemma assemblyPlace_cursor:
  "x \<le> fst (assemblyPlace rnd s ops x st) \<and>
   x \<le> fst (snd (assemblyPlace rnd s ops x st)) \<and>
   cursors (snd (snd (assemblyPlace rnd s ops x st))) = cursors st"
  using fold_placeMain_cursor [of "(x, addBoard rnd ''Assembly'' x 0 st)"
      rnd s "filter (\<lambda>i. i \<notin> set (filter isButtonOp ops)) ops"]
    fold_placeButton_cursor [of "(x,
        snd (fold (placeMain rnd s) (filter (\<lambda>i. i \<notin> set (filter isButtonOp ops)) ops)
          (x, addBoard rnd ''Assembly'' x 0 st)))"
      rnd s "filter isButtonOp ops"]
  by (simp add: assemblyPlace_def Let_def)

lemma cursors_resync:
  "cursors_le
     (cursors (snd (snd (assemblyPlace rnd s ops (max4 (cursors st) + SECTION_GAP_X) (syncAll st)))))
     (cursors (resyncAll (assemblyPlace rnd s ops (max4 (cursors st) + SECTION_GAP_X) (syncAll st))))"
proof -
  let ?r = "assemblyPlace rnd s ops (max4 (cursors st) + SECTION_GAP_X) (syncAll st)"
  have "cursors (snd (snd ?r)) = cursors (syncAll st)"
    and "max4 (cursors st) + SECTION_GAP_X \<le> fst ?r"
    using assemblyPlace_cursor [of "max4 (cursors st) + SECTION_GAP_X" rnd s ops "syncAll st"]
    by simp_all
  moreover have "fst ?r \<le> max (fst ?r) (fst (snd ?r))"
    by simp
  ultimately show ?thesis
    by (simp add: cursors_le_def)
qed

lemma cursors_syncAll: "cursors_le (cursors st) (cursors (syncAll st))"
  by (simp add: cursors_le_const SECTION_GAP_X_def)

lemma cursors_syncPair: "cursors_le (cursors st) (cursors (syncPair g st))"
  by (simp add: cursors_le_setPair SECTION_GAP_X_def)

lemma cursors_endOfSection: "cursors_le (cursors st) (cursors (endOfSection g s st))"
  by (simp add: cursors_le_setPair SECTION_GAP_X_def)

lemma cursors_placeAssembly: "cursors_le (cursors st) (cursors (placeAssembly rnd s ops st))"
proof -
  have "cursors_le (cursors (syncAll st)) (cursors (placeAssembly rnd s ops st))"
    using cursors_resync [of rnd s ops st]
      assemblyPlace_cursor [of "max4 (cursors st) + SECTION_GAP_X" rnd s ops "syncAll st"]
    by (simp add: placeAssembly_def)
  with cursors_syncAll [of st] show ?thesis
    by (rule cursors_le_trans)
qed

lemma cursors_placePrep: "cursors_le (cursors st) (cursors (placePrep rnd s ops st))"
proof -
  let ?g = "targetGroupOf (toLowerCase s)"
  let ?st1 = "syncPair ?g st"
  let ?st2 = "addBoard rnd s (pairMax ?g (cursors st) + SECTION_GAP_X)
                (case ?g of AB \<Rightarrow> LANE_Z_A | CD \<Rightarrow> LANE_Z_C) ?st1"
  let ?st3 = "boardClearance ?g ?st2"
  let ?st4 = "fst (fold (placeOp rnd ?g s) ops (?st3, firstLane ?g))"
  have 1: "cursors_le (cursors st) (cursors ?st2)"
    using cursors_syncPair [of st ?g] by simp
  have 2: "cursors_le (cursors ?st2) (cursors ?st3)"
    by (rule cursors_boardClearance)
  have 3: "cursors_le (cursors ?st3) (cursors ?st4)"
    by (rule cursors_fold_placeOp)
  have 4: "cursors_le (cursors ?st4) (cursors (endOfSection ?g s ?st4))"
    by (rule cursors_endOfSection)
  have "placePrep rnd s ops st = endOfSection ?g s ?st4"
    by (simp add: placePrep_def Let_def)
  moreover have "cursors_le (cursors st) (cursors (endOfSection ?g s ?st4))"
    using cursors_le_trans [OF cursors_le_trans [OF cursors_le_trans [OF 1 2] 3] 4] .
  ultimately show ?thesis
    by simp
qed

lemma cursors_placeSection: "cursors_le (cursors st) (cursors (placeSection rnd m s st))"
  by (simp add: placeSection_def Let_def cursors_placeAssembly cursors_placePrep)

lemma cursors_fold_placeSection:
  "cursors_le (cursors st) (cursors (fold (placeSection rnd m) secs st))"
proof (induction secs arbitrary: st)
  case Nil
  then show ?case by simp
next
  case (Cons s secs)
  show ?case
    using cursors_placeSection [of st rnd m s] Cons.IH [of "placeSection rnd m s st"]
    by (auto intro: cursors_le_trans)
qed

text \<open>
  C9. Each of the four lane cursors never decreases: at the synchronisation of a pair and
  of all four lanes at the start of a section, at the board clearance, at the advance after
  an operation, at the resynchronisation that ends an assembly section (whose placement
  loops leave the cursors alone), at the advance past the fixtures, over a whole section
  and over any run of sections.
\<close>

theorem lane_cursors_never_decrease:
  "cursors_le (cursors st) (cursors (syncPair g st)) \<and>
   cursors_le (cursors st) (cursors (syncAll st)) \<and>
   cursors_le (cursors st) (cursors (boardClearance g st)) \<and>
   cursors_le (cursors st) (cursors (fst (placeOp rnd g secName item (st, tg)))) \<and>
   cursors (snd (snd (assemblyPlace rnd secName bucket startX (syncAll st))))
     = cursors (syncAll st) \<and>
   cursors_le
     (cursors (snd (snd (assemblyPlace rnd secName bucket (max4 (cursors st) + SECTION_GAP_X)
                           (syncAll st)))))
     (cursors (resyncAll (assemblyPlace rnd secName bucket (max4 (cursors st) + SECTION_GAP_X)
                            (syncAll st)))) \<and>
   cursors_le (cursors st) (cursors (endOfSection g secName st)) \<and>
   cursors_le (cursors st) (cursors (placeSection rnd sectionsMap secName st)) \<and>
   cursors_le (cursors st) (cursors (fold (placeSection rnd sectionsMap) sectionOrder st))"
proof (intro conjI)
  show "cursors (snd (snd (assemblyPlace rnd secName bucket startX (syncAll st))))
      = cursors (syncAll st)"
    using assemblyPlace_cursor [of startX rnd secName bucket "syncAll st"] by blast
qed (rule cursors_syncPair cursors_syncAll cursors_boardClearance cursors_placeOp
       cursors_resync cursors_endOfSection cursors_placeSection cursors_fold_placeSection)+

subsection \<open>Boards\<close>

lemma fold_placeMain_prefix:
  "\<exists>ys. layout (snd (fold (placeMain rnd s) ops acc)) = layout (snd acc) @ ys"
proof (induction ops arbitrary: acc)
  case Nil
  then show ?case by simp
next
  case (Cons item ops)
  obtain op n where item: "item = (op, n)" by (cases item)
  obtain c st where acc: "acc = (c, st)" by (cases acc)
  show ?case
    using Cons.IH [of "placeMain rnd s item acc"]
    by (auto simp add: item acc placeMain_closed)
qed

lemma fold_placeButton_prefix:
  "\<exists>ys. layout (snd (fold (placeButton rnd s) ops acc)) = layout (snd acc) @ ys"
proof (induction ops arbitrary: acc)
  case Nil
  then show ?case by simp
next
  case (Cons item ops)
  obtain op n where item: "item = (op, n)" by (cases item)
  obtain c st where acc: "acc = (c, st)" by (cases acc)
  show ?case
    using Cons.IH [of "placeButton rnd s item acc"]
    by (auto simp add: item acc placeButton_closed)
qed

lemma placeAssembly_board:
  "\<exists>ys. layout (placeAssembly rnd s ops st) =
          layout st @ boardEntity (rnd (uuid_calls st)) ''Assembly''
                        (max4 (cursors st) + SECTION_GAP_X) 0 # ys"
proof -
  let ?x = "max4 (cursors st) + SECTION_GAP_X"
  let ?st1 = "addBoard rnd ''Assembly'' ?x 0 (syncAll st)"
  let ?buttonOps = "filter isButtonOp ops"
  let ?mainOps = "filter (\<lambda>i. i \<notin> set ?buttonOps) ops"
  let ?main = "fold (placeMain rnd s) ?mainOps (?x, ?st1)"
  let ?button = "fold (placeButton rnd s) ?buttonOps (?x, snd ?main)"
  obtain ys where ys: "layout (snd ?main) = layout ?st1 @ ys"
    using fold_placeMain_prefix [of rnd s ?mainOps "(?x, ?st1)"] by auto
  obtain zs where zs: "layout (snd ?button) = layout (snd ?main) @ zs"
    using fold_placeButton_prefix [of rnd s ?buttonOps "(?x, snd ?main)"] by auto
  have "layout (placeAssembly rnd s ops st) = layout (snd ?button)"
    by (simp add: placeAssembly_def assemblyPlace_def Let_def)
  then show ?thesis
    using ys zs by simp
qed

lemma isBoard_emitted:
  assumes "emitted e" and "isBoard e"
  shows "\<exists>u name x z. e = boardEntity u name x z"
  using assms
  by (cases rule: emitted.cases)
     (auto simp add: isBoard_def machineEntity_def inspectionEntity_def trolleyEntity_def Let_def)

lemma boardEntity_fields:
  "lane (boardEntity u name x z) = (if z < 0 then LaneA else LaneC)"
  "position (boardEntity u name x z) = \<lparr> vx = x, vy = 5 / 2, vz = z \<rparr>"
  "machine_type (operation (boardEntity u name x z)) = ''Board''"
  "machineIndex (boardEntity u name x z) = Some (- 1)"
  by (simp_all add: boardEntity_def createDummyOp_def)

text \<open>
  C10. Every board in the returned layout (the entities with sequence index \<open>-1\<close>) has
  lane A exactly when its \<open>z\<close> is negative and lane C otherwise, sits at height 2.5 and has
  machine type \<open>Board\<close>; every object \<^verbatim>\<open>addBoard\<close> builds carries sequence index \<open>-1\<close>;
  and the first object an assembly section pushes is its board at \<open>z = 0\<close>, in lane C.
\<close>

theorem board_lane_from_z:
  "(generateLayout rnd ops targetOutput workingMinutes = Inr lay \<longrightarrow>
      (\<forall>e\<in>set lay. isBoard e \<longrightarrow>
         (lane e = LaneA \<longleftrightarrow> vz (position e) < 0) \<and>
         (lane e = LaneC \<longleftrightarrow> \<not> vz (position e) < 0) \<and>
         vy (position e) = 5 / 2 \<and>
         machine_type (operation e) = ''Board'')) \<and>
   isBoard (boardEntity u name x z) \<and>
   (\<exists>ys. layout (placeAssembly rnd secName bucket st) =
      layout st @ boardEntity (rnd (uuid_calls st)) ''Assembly''
                    (max4 (cursors st) + SECTION_GAP_X) 0 # ys) \<and>
   vz (position (boardEntity u ''Assembly'' x 0)) = 0 \<and>
   lane (boardEntity u ''Assembly'' x 0) = LaneC"
proof (intro conjI impI ballI)
  fix e
  assume run: "generateLayout rnd ops targetOutput workingMinutes = Inr lay"
    and e: "e \<in> set lay" and b: "isBoard e"
  from run obtain bal where "lay = layout (placeAll rnd bal)"
    by (auto simp add: generateLayout_def split: sum.splits)
  with e have "emitted e"
    using placeAll_emitted [of rnd bal] by (simp add: list_all_iff)
  with b obtain u' name' x' z' where eq: "e = boardEntity u' name' x' z'"
    using isBoard_emitted by blast
  show "(lane e = LaneA) = (vz (position e) < 0)"
    and "(lane e = LaneC) = (\<not> vz (position e) < 0)"
    and "vy (position e) = 5 / 2"
    and "machine_type (operation e) = ''Board''"
    by (simp_all add: eq boardEntity_fields)
next
  show "isBoard (boardEntity u name x z)"
    by (simp add: isBoard_def boardEntity_fields)
  show "\<exists>ys. layout (placeAssembly rnd secName bucket st) =
      layout st @ boardEntity (rnd (uuid_calls st)) ''Assembly''
                    (max4 (cursors st) + SECTION_GAP_X) 0 # ys"
    by (rule placeAssembly_board)
  show "vz (position (boardEntity u ''Assembly'' x 0)) = 0"
    and "lane (boardEntity u ''Assembly'' x 0) = LaneC"
    by (simp_all add: boardEntity_fields)
qed

lemma example_cuff:
  "generateLayout (\<lambda>n. ''u'') [cuffOp] 480 480 =
     Inr [boardEntity ''u'' ''Cuff'' 2 LANE_Z_A,
          machineEntity ''u'' cuffOp LaneA (7 / 2) 0 None (Some ''Cuff''),
          inspectionEntity AB ''Cuff'' (13 / 2),
          trolleyEntity AB ''Cuff'' (13 / 2)]"
  by code_simp

theorem board_lane_from_z_witness:
  "isBoard (boardEntity ''u'' ''Cuff'' 2 LANE_Z_A) \<and>
   boardEntity ''u'' ''Cuff'' 2 LANE_Z_A
     \<in> set (projr (generateLayout (\<lambda>n. ''u'') [cuffOp] 480 480)) \<and>
   lane (boardEntity ''u'' ''Cuff'' 2 LANE_Z_A) = LaneA \<and>
   vz (position (boardEntity ''u'' ''Cuff'' 2 LANE_Z_A)) < 0 \<and>
   vy (position (boardEntity ''u'' ''Cuff'' 2 LANE_Z_A)) = 5 / 2"
proof -
  let ?b = "boardEntity ''u'' ''Cuff'' 2 LANE_Z_A"
  let ?lay = "[?b, machineEntity ''u'' cuffOp LaneA (7 / 2) 0 None (Some ''Cuff''),
               inspectionEntity AB ''Cuff'' (13 / 2), trolleyEntity AB ''Cuff'' (13 / 2)]"
  have run: "generateLayout (\<lambda>n. ''u'') [cuffOp] 480 480 = Inr ?lay"
    by (rule example_cuff)
  have mem: "?b \<in> set ?lay"
    by simp
  have isb: "isBoard ?b"
    by (simp add: isBoard_def boardEntity_fields)
  have neg: "vz (position ?b) < 0"
    by (simp add: boardEntity_fields LANE_Z_A_def)
  have "(lane ?b = LaneA \<longleftrightarrow> vz (position ?b) < 0) \<and>
        (lane ?b = LaneC \<longleftrightarrow> \<not> vz (position ?b) < 0) \<and>
        vy (position ?b) = 5 / 2 \<and> machine_type (operation ?b) = ''Board''"
    using board_lane_from_z [of "\<lambda>n. ''u''" "[cuffOp]" 480 480 ?lay,
        THEN conjunct1, rule_format, OF run mem isb] .
  with neg isb mem show ?thesis
    by (simp only: run sum.sel)
qed

subsection \<open>Facing of parts-preparation machines\<close>

lemma machineEntity_fields:
  "lane (machineEntity u op la x k f sn) = la"
  "operation (machineEntity u op la x k f sn) = op"
  "vx (position (machineEntity u op la x k f sn)) = x"
  "machineIndex (machineEntity u op la x k f sn) = Some (int k)"
  "ent_section (machineEntity u op la x k f (Some s)) = (if s = [] then op_section op else s)"
  "vy (rotation (machineEntity u op la x k (Some r) sn)) = r"
  "vy (rotation (machineEntity u op la x k None sn)) =
     (if str_includes (toLowerCase (machine_type op)) ''iron'' \<or>
         str_includes (toLowerCase (machine_type op)) ''inspection''
      then ROT_FACE_FRONT
      else case la of LaneA \<Rightarrow> ROT_FACE_LEFT | LaneB \<Rightarrow> ROT_FACE_RIGHT
                    | LaneC \<Rightarrow> ROT_FACE_RIGHT | LaneD \<Rightarrow> ROT_FACE_LEFT)"
  by (simp_all add: machineEntity_def Let_def ROT_A_FACES_B_def ROT_B_FACES_A_def
        ROT_C_FACES_D_def ROT_D_FACES_C_def split: lane.splits)

lemma isMachine_simps [simp]:
  "isMachine (machineEntity u op la x k f s)"
  "\<not> isMachine (boardEntity u name x z)"
  "\<not> isMachine (inspectionEntity g sec x)"
  "\<not> isMachine (trolleyEntity g sec x)"
  by (simp_all add: isMachine_def machineEntity_fields boardEntity_fields
        inspectionEntity_def trolleyEntity_def)

text \<open>
  What the code does do for the machines outside the assembly sections: a machine type
  containing \<open>iron\<close> or \<open>inspection\<close> faces front; any other type faces by lane,
  A left, B right, C right, D left.
\<close>

lemma prep_machine_yaw:
  assumes "generateLayout rnd ops targetOutput workingMinutes = Inr lay"
    and "e \<in> set lay" and "isMachine e"
    and "\<not> str_includes (toLowerCase (ent_section e)) assemblySection"
  shows "vy (rotation e) =
     (if str_includes (toLowerCase (machine_type (operation e))) ''iron'' \<or>
         str_includes (toLowerCase (machine_type (operation e))) ''inspection''
      then ROT_FACE_FRONT
      else case lane e of LaneA \<Rightarrow> ROT_FACE_LEFT | LaneB \<Rightarrow> ROT_FACE_RIGHT
                        | LaneC \<Rightarrow> ROT_FACE_RIGHT | LaneD \<Rightarrow> ROT_FACE_LEFT)"
proof -
  from assms(1) obtain bal where "lay = layout (placeAll rnd bal)"
    by (auto simp add: generateLayout_def split: sum.splits)
  with assms(2) have "emitted e"
    using placeAll_emitted [of rnd bal] by (simp add: list_all_iff)
  then show ?thesis
    using assms(3,4)
    by (cases rule: emitted.cases) (simp_all add: machineEntity_fields)
qed

lemma example_press:
  "generateLayout (\<lambda>n. ''u'') [pressOp] 480 480 =
     Inr [boardEntity ''u'' ''Cuff'' 2 LANE_Z_A,
          machineEntity ''u'' pressOp LaneA (7 / 2) 0 None (Some ''Cuff''),
          inspectionEntity AB ''Cuff'' (13 / 2),
          trolleyEntity AB ''Cuff'' (13 / 2)]"
  by code_simp

text \<open>
  C5, at the operation \<open>pressOp\<close> (machine type \<open>Steam Press\<close>, section \<open>Cuff\<close>): its
  one machine is placed in lane A and faces left, not front.
\<close>

theorem press_machine_not_front:
  "generateLayout (\<lambda>n. ''u'') [pressOp] 480 480 =
     Inr [boardEntity ''u'' ''Cuff'' 2 LANE_Z_A,
          machineEntity ''u'' pressOp LaneA (7 / 2) 0 None (Some ''Cuff''),
          inspectionEntity AB ''Cuff'' (13 / 2),
          trolleyEntity AB ''Cuff'' (13 / 2)] \<and>
   machine_type pressOp = ''Steam Press'' \<and>
   lane (machineEntity ''u'' pressOp LaneA (7 / 2) 0 None (Some ''Cuff'')) = LaneA \<and>
   vy (rotation (machineEntity ''u'' pressOp LaneA (7 / 2) 0 None (Some ''Cuff'')))
     = ROT_FACE_LEFT \<and>
   ROT_FACE_LEFT \<noteq> ROT_FACE_FRONT"
proof -
  have "vy (rotation (machineEntity ''u'' pressOp LaneA (7 / 2) 0 None (Some ''Cuff'')))
          = ROT_FACE_LEFT"
    by code_simp
  moreover have "machine_type pressOp = ''Steam Press''"
    by (simp add: pressOp_def)
  moreover have "ROT_FACE_LEFT \<noteq> ROT_FACE_FRONT"
    by (simp add: ROT_FACE_LEFT_def ROT_FACE_FRONT_def)
  ultimately show ?thesis
    using example_press by (simp add: machineEntity_fields(1))
qed

subsection \<open>The fixtures that end a parts-preparation section\<close>

text \<open>
  What the code does do at the end of a parts-preparation section: it pushes the
  inspection table and then the trolley, both in the pair's first lane, the trolley 3.5
  further along; and it leaves both cursors of the pair 1.0 short of the trolley.
\<close>

lemma endOfSection_fixtures:
  "\<exists>ins tr. layout (endOfSection g secName st) = layout st @ [ins, tr] \<and>
     isInspection ins \<and> \<not> isTrolley ins \<and> isTrolley tr \<and> \<not> isInspection tr \<and>
     lane ins = firstLane g \<and> lane tr = firstLane g \<and>
     vx (position tr) = vx (position ins) + 7 / 2 \<and>
     cursors (endOfSection g secName st) (firstLane g) = vx (position tr) - 1 \<and>
     cursors (endOfSection g secName st) (secondLane g) = vx (position tr) - 1"
  by (cases g)
     (simp_all add: inspectionEntity_def trolleyEntity_def firstLane_def secondLane_def
        setPair_def)

lemma example_cuff_cursors:
  "cursors (placeAll (\<lambda>n. ''u'') [(cuffOp, 1)]) LaneA = 9 \<and>
   cursors (placeAll (\<lambda>n. ''u'') [(cuffOp, 1)]) LaneB = 9"
  by code_simp

text \<open>
  C6, at the single operation \<open>cuffOp\<close> (section \<open>Cuff\<close>, one machine): the trolley is
  pushed at offset 10 and the call ends with cursors A and B at 9.
\<close>

theorem cursors_short_of_trolley:
  "calculateMachineRequirements [cuffOp] 480 480 = Inr [(cuffOp, 1)] \<and>
   layout (placeAll (\<lambda>n. ''u'') [(cuffOp, 1)]) =
     [boardEntity ''u'' ''Cuff'' 2 LANE_Z_A,
      machineEntity ''u'' cuffOp LaneA (7 / 2) 0 None (Some ''Cuff''),
      inspectionEntity AB ''Cuff'' (13 / 2),
      trolleyEntity AB ''Cuff'' (13 / 2)] \<and>
   vx (position (trolleyEntity AB ''Cuff'' (13 / 2))) = 10 \<and>
   cursors (placeAll (\<lambda>n. ''u'') [(cuffOp, 1)]) LaneA = 9 \<and>
   cursors (placeAll (\<lambda>n. ''u'') [(cuffOp, 1)]) LaneB = 9"
proof -
  have "calculateMachineRequirements [cuffOp] 480 480 = Inr [(cuffOp, 1)]"
    by (simp add: calculateMachineRequirements_def cuffOp_def)
  moreover from this have "layout (placeAll (\<lambda>n. ''u'') [(cuffOp, 1)]) =
     [boardEntity ''u'' ''Cuff'' 2 LANE_Z_A,
      machineEntity ''u'' cuffOp LaneA (7 / 2) 0 None (Some ''Cuff''),
      inspectionEntity AB ''Cuff'' (13 / 2),
      trolleyEntity AB ''Cuff'' (13 / 2)]"
    using example_cuff by (simp add: generateLayout_def)
  moreover have "vx (position (trolleyEntity AB ''Cuff'' (13 / 2))) = 10"
    by (simp add: trolleyEntity_def)
  ultimately show ?thesis
    using example_cuff_cursors by simp
qed

subsection \<open>Alternation of lanes in a parts-preparation section\<close>

lemma toggleLane_first [simp]: "toggleLane g (firstLane g) = secondLane g"
  by (cases g) (simp_all add: toggleLane_def firstLane_def secondLane_def)

lemma toggleLane_second [simp]: "toggleLane g (secondLane g) = firstLane g"
  by (cases g) (simp_all add: toggleLane_def firstLane_def secondLane_def)

lemma snd_placeOp: "snd (placeOp rnd g s item acc) = toggleLane g (snd acc)"
  by (cases item; cases acc) (simp add: placeOp_closed)

lemma fold_placeOp_toggle:
  "snd (fold (placeOp rnd g s) ops (st, firstLane g)) =
     (if even (length ops) then firstLane g else secondLane g)"
proof (induction ops rule: rev_induct)
  case Nil
  then show ?case by simp
next
  case (snoc item ops)
  then show ?case by (simp add: snd_placeOp)
qed

lemma fold_split_at:
  "i < length xs \<Longrightarrow> fold f xs a = fold f (drop (Suc i) xs) (f (xs ! i) (fold f (take i xs) a))"
proof -
  assume "i < length xs"
  then have "xs = take i xs @ xs ! i # drop (Suc i) xs"
    by (simp add: id_take_nth_drop)
  then have "fold f xs a = fold f (take i xs @ xs ! i # drop (Suc i) xs) a"
    by simp
  then show ?thesis
    by (simp only: fold_append fold_Cons comp_apply)
qed

subsection \<open>Placement in an assembly section\<close>

lemma assembly_machine_lane:
  assumes "emitted e" and "isMachine e"
    and "str_includes (toLowerCase (ent_section e)) assemblySection"
  shows "vy (rotation e) = ROT_FACE_FRONT \<and>
         (if isButtonOp (operation e, n) then lane e = LaneD
          else lane e = LaneA \<or> lane e = LaneB \<or> lane e = LaneC)"
  using assms
proof (cases rule: emitted.cases)
  case (main s op m u k x)
  have "k mod 3 = 0 \<or> k mod 3 = 1 \<or> k mod 3 = 2"
    by presburger
  then have "[LaneA, LaneB, LaneC] ! (k mod 3) = LaneA \<or>
             [LaneA, LaneB, LaneC] ! (k mod 3) = LaneB \<or>
             [LaneA, LaneB, LaneC] ! (k mod 3) = LaneC"
    by auto
  moreover have "\<not> isButtonOp (op, n)"
    using main(4) isButtonOp_count [of op n m] by simp
  ultimately show ?thesis
    by (simp add: main(1) machineEntity_fields)
next
  case (button s op m u x k)
  have "isButtonOp (op, n)"
    using button(4) isButtonOp_count [of op n m] by simp
  then show ?thesis
    by (simp add: button(1) machineEntity_fields)
qed (simp_all add: machineEntity_fields)

lemma three_by_three:
  assumes "\<not> isButtonOp (oa, 3)" and "\<not> isButtonOp (ob, 3)" and "\<not> isButtonOp (oc, 3)"
  shows "map (\<lambda>e. (lane e, vx (position e), vy (rotation e), operation e))
           (drop (Suc (length (layout st)))
              (layout (placeAssembly rnd secName [(oa, 3), (ob, 3), (oc, 3)] st))) =
         (let startX = max4 (cursors st) + SECTION_GAP_X
          in [(LaneA, startX, ROT_FACE_FRONT, oa),
              (LaneB, startX, ROT_FACE_FRONT, oa),
              (LaneC, startX, ROT_FACE_FRONT, oa),
              (LaneA, startX + MACHINE_SPACING_X, ROT_FACE_FRONT, ob),
              (LaneB, startX + MACHINE_SPACING_X, ROT_FACE_FRONT, ob),
              (LaneC, startX + MACHINE_SPACING_X, ROT_FACE_FRONT, ob),
              (LaneA, startX + 2 * MACHINE_SPACING_X, ROT_FACE_FRONT, oc),
              (LaneB, startX + 2 * MACHINE_SPACING_X, ROT_FACE_FRONT, oc),
              (LaneC, startX + 2 * MACHINE_SPACING_X, ROT_FACE_FRONT, oc)])"
proof -
  have three: "[0..<3] = [0, 1, 2]"
    by (simp add: upt_rec)
  have rows: "\<lceil>(3::rat) / 3\<rceil> = 1"
    by simp
  show ?thesis
    using assms
    by (simp add: placeAssembly_def assemblyPlace_def Let_def placeMain_closed machines_def
          three machineEntity_fields algebra_simps)
qed

lemma example_assembly:
  "generateLayout (\<lambda>n. ''u'') [joinOp, buttonOp] 480 480 =
     Inr [boardEntity ''u'' ''Assembly'' 2 0,
          machineEntity ''u'' joinOp LaneA 2 0 (Some ROT_FACE_FRONT) (Some ''Assembly''),
          machineEntity ''u'' joinOp LaneB 2 1 (Some ROT_FACE_FRONT) (Some ''Assembly''),
          machineEntity ''u'' joinOp LaneC 2 2 (Some ROT_FACE_FRONT) (Some ''Assembly''),
          machineEntity ''u'' buttonOp LaneD 2 0 (Some ROT_FACE_FRONT) (Some ''Assembly''),
          machineEntity ''u'' buttonOp LaneD 4 1 (Some ROT_FACE_FRONT) (Some ''Assembly'')]"
  by code_simp

subsection \<open>No two machines in one slot\<close>

lemma withinBounds_mono:
  "withinBounds b lay \<Longrightarrow> cursors_le b b' \<Longrightarrow> withinBounds b' lay"
proof -
  assume wb: "withinBounds b lay" and le: "cursors_le b b'"
  have "b l \<le> b' l" for l
    using le by (cases l) (simp_all add: cursors_le_def)
  then show ?thesis
    using wb unfolding withinBounds_def by (meson less_le_trans)
qed

lemma noSharedSlot_fixture [simp]:
  "\<not> isMachine e \<Longrightarrow> noSharedSlot (lay @ [e]) = noSharedSlot lay"
  by (simp add: noSharedSlot_def)

lemma withinBounds_fixture [simp]:
  "\<not> isMachine e \<Longrightarrow> withinBounds b (lay @ [e]) = withinBounds b lay"
  by (auto simp add: withinBounds_def)

lemma filter_isMachine_machines [simp]:
  "filter isMachine (machines rnd u0 op L X f s n) = machines rnd u0 op L X f s n"
  by (simp add: machines_def filter_map comp_def)

lemma map_slot_machines:
  "map slot (machines rnd u0 op L X f s n) = map (\<lambda>k. (L k, X k)) [0..<n]"
  by (simp add: machines_def slot_def machineEntity_fields)

lemma set_machines:
  "e \<in> set (machines rnd u0 op L X f s n) \<Longrightarrow>
   \<exists>k<n. e = machineEntity (rnd (u0 + k)) op (L k) (X k) k f s"
  by (auto simp add: machines_def)

text \<open>
  Appending a run of machines keeps the invariant when every new slot is at or beyond the
  old bound of its lane, the new slots differ from each other and lie before the new
  bounds, and no bound moves back.
\<close>

lemma append_machines_inv:
  assumes old: "noSharedSlot lay" "withinBounds b lay"
    and beyond: "\<forall>k<n. b (L k) \<le> X k"
    and inj: "inj_on (\<lambda>k. (L k, X k)) {..<n}"
    and before: "\<forall>k<n. X k < b' (L k)"
    and le: "cursors_le b b'"
  shows "noSharedSlot (lay @ machines rnd u0 op L X f s n) \<and>
         withinBounds b' (lay @ machines rnd u0 op L X f s n)"
proof
  have d_new: "distinct (map (\<lambda>k. (L k, X k)) [0..<n])"
    using inj by (simp add: distinct_map atLeast0LessThan)
  have disj: "set (map slot (filter isMachine lay)) \<inter> set (map (\<lambda>k. (L k, X k)) [0..<n]) = {}"
  proof (rule ccontr)
    assume "set (map slot (filter isMachine lay)) \<inter> set (map (\<lambda>k. (L k, X k)) [0..<n]) \<noteq> {}"
    then obtain e k where e: "e \<in> set lay" "isMachine e" and k: "k < n"
      and eq: "slot e = (L k, X k)"
      by (auto simp add: eq_commute [of "(L _, X _)"])
    from eq have "lane e = L k" and "vx (position e) = X k"
      by (simp_all add: slot_def)
    moreover have "vx (position e) < b (lane e)"
      using old(2) e by (simp add: withinBounds_def)
    moreover have "b (L k) \<le> X k"
      using beyond k by simp
    ultimately show False
      by simp
  qed
  show "noSharedSlot (lay @ machines rnd u0 op L X f s n)"
    using old(1) d_new disj by (simp add: noSharedSlot_def map_slot_machines)
  have "withinBounds b' lay"
    using old(2) le by (rule withinBounds_mono)
  moreover have "\<forall>e\<in>set (machines rnd u0 op L X f s n). vx (position e) < b' (lane e)"
    using before by (auto dest!: set_machines simp add: machineEntity_fields)
  ultimately show "withinBounds b' (lay @ machines rnd u0 op L X f s n)"
    by (auto simp add: withinBounds_def)
qed

lemma placeOp_inv:
  assumes "noSharedSlot (layout st)" and "withinBounds (cursors st) (layout st)"
  shows "noSharedSlot (layout (fst (placeOp rnd g s item (st, tg)))) \<and>
         withinBounds (cursors (fst (placeOp rnd g s item (st, tg))))
           (layout (fst (placeOp rnd g s item (st, tg))))"
proof -
  obtain op n where item: "item = (op, n)" by (cases item)
  let ?X = "\<lambda>k. cursors st tg + of_nat k * MACHINE_SPACING_X"
  let ?b' = "(cursors st)(tg := cursors st tg + of_nat n * MACHINE_SPACING_X)"
  have "inj_on (\<lambda>k. (tg, ?X k)) {..<n}"
    by (rule inj_onI) (simp add: MACHINE_SPACING_X_def)
  moreover have "\<forall>k<n. cursors st tg \<le> ?X k"
    by (simp add: MACHINE_SPACING_X_def)
  moreover have "\<forall>k<n. ?X k < ?b' tg"
    by (simp add: MACHINE_SPACING_X_def)
  moreover have "cursors_le (cursors st) ?b'"
    by (rule cursors_le_upd) (simp add: MACHINE_SPACING_X_def)
  ultimately show ?thesis
    using append_machines_inv [OF assms, of n "\<lambda>k. tg" ?X ?b' rnd "uuid_calls st" op None "Some s"]
    by (simp add: item placeOp_closed)
qed

lemma fold_placeOp_inv:
  assumes "noSharedSlot (layout st)" and "withinBounds (cursors st) (layout st)"
  shows "noSharedSlot (layout (fst (fold (placeOp rnd g s) ops (st, tg)))) \<and>
         withinBounds (cursors (fst (fold (placeOp rnd g s) ops (st, tg))))
           (layout (fst (fold (placeOp rnd g s) ops (st, tg))))"
  using assms
proof (induction ops arbitrary: st tg)
  case Nil
  then show ?case by simp
next
  case (Cons item ops)
  obtain st' tg' where step: "placeOp rnd g s item (st, tg) = (st', tg')"
    by (cases "placeOp rnd g s item (st, tg)")
  have "noSharedSlot (layout st') \<and> withinBounds (cursors st') (layout st')"
    using placeOp_inv [OF Cons.prems, of rnd g s item tg] step by simp
  then show ?case
    using Cons.IH [of st' tg'] step by simp
qed

lemma lanes3_cases:
  "[LaneA, LaneB, LaneC] ! (k mod 3) = LaneA \<and> k mod 3 = 0 \<or>
   [LaneA, LaneB, LaneC] ! (k mod 3) = LaneB \<and> k mod 3 = 1 \<or>
   [LaneA, LaneB, LaneC] ! (k mod 3) = LaneC \<and> k mod 3 = 2"
proof -
  have "k mod 3 = 0 \<or> k mod 3 = 1 \<or> k mod 3 = 2"
    by presburger
  then show ?thesis
    by auto
qed

lemma lanes3_not_D: "[LaneA, LaneB, LaneC] ! (k mod 3) \<noteq> LaneD"
  using lanes3_cases [of k] by auto

lemma lanes3_inj:
  "[LaneA, LaneB, LaneC] ! (k mod 3) = [LaneA, LaneB, LaneC] ! (j mod 3) \<Longrightarrow> k mod 3 = j mod 3"
  using lanes3_cases [of k] lanes3_cases [of j] by auto

lemma row_below_rows:
  assumes "k < n"
  shows "(of_nat (k div 3) :: rat) < of_int \<lceil>(of_nat n :: rat) / 3\<rceil>"
proof -
  have "3 * (k div 3) \<le> k"
    by simp
  then have "(of_nat (3 * (k div 3)) :: rat) \<le> of_nat k"
    by (simp only: of_nat_le_iff)
  then have "(of_nat (k div 3) :: rat) \<le> of_nat k / 3"
    by simp
  also have "(of_nat k :: rat) / 3 < of_nat n / 3"
    using assms by simp
  also have "(of_nat n :: rat) / 3 \<le> of_int \<lceil>(of_nat n :: rat) / 3\<rceil>"
    by (rule le_of_int_ceiling)
  finally show ?thesis .
qed

lemma placeMain_inv:
  assumes "noSharedSlot (layout st)"
    and "withinBounds (assemblyBounds (c) (d)) (layout st)"
  shows "noSharedSlot (layout (snd (placeMain rnd s item (c, st)))) \<and>
         withinBounds (assemblyBounds (fst (placeMain rnd s item (c, st))) (d))
           (layout (snd (placeMain rnd s item (c, st))))"
proof -
  obtain op n where item: "item = (op, n)" by (cases item)
  let ?L = "\<lambda>k. [LaneA, LaneB, LaneC] ! (k mod 3)"
  let ?X = "\<lambda>k. c + of_nat (k div 3) * MACHINE_SPACING_X"
  let ?c' = "c + of_int \<lceil>(of_nat n :: rat) / 3\<rceil> * MACHINE_SPACING_X"
  let ?b = "assemblyBounds c d"
  let ?b' = "assemblyBounds ?c' d"
  have beyond: "\<forall>k<n. ?b (?L k) \<le> ?X k"
    by (simp add: assemblyBounds_def lanes3_not_D MACHINE_SPACING_X_def)
  have inj: "inj_on (\<lambda>k. (?L k, ?X k)) {..<n}"
  proof (rule inj_onI)
    fix k j
    assume "(?L k, ?X k) = (?L j, ?X j)"
    then have "k mod 3 = j mod 3" and "k div 3 = j div 3"
      using lanes3_inj [of k j] by (simp_all add: MACHINE_SPACING_X_def)
    then show "k = j"
      by (metis div_mult_mod_eq)
  qed
  have before: "\<forall>k<n. ?X k < ?b' (?L k)"
    using row_below_rows [of _ n]
    by (simp add: assemblyBounds_def lanes3_not_D MACHINE_SPACING_X_def)
  have "(0::int) \<le> \<lceil>(of_nat n :: rat) / 3\<rceil>"
    by (simp add: le_ceiling_iff)
  then have le: "cursors_le ?b ?b'"
    by (simp add: assemblyBounds_def cursors_le_def MACHINE_SPACING_X_def)
  show ?thesis
    using append_machines_inv [OF assms beyond inj before le,
        of rnd "uuid_calls st" op "Some ROT_FACE_FRONT" "Some s"]
    by (simp add: item placeMain_closed)
qed

lemma fold_placeMain_inv:
  assumes "noSharedSlot (layout (snd acc))"
    and "withinBounds (assemblyBounds (fst acc) (d)) (layout (snd acc))"
  shows "noSharedSlot (layout (snd (fold (placeMain rnd s) ops acc))) \<and>
         withinBounds (assemblyBounds (fst (fold (placeMain rnd s) ops acc)) (d))
           (layout (snd (fold (placeMain rnd s) ops acc)))"
  using assms
proof (induction ops arbitrary: acc)
  case Nil
  then show ?case by simp
next
  case (Cons item ops)
  obtain c st where acc: "acc = (c, st)" by (cases acc)
  from Cons.prems have "noSharedSlot (layout st)"
    and "withinBounds (assemblyBounds (c) (d)) (layout st)"
    by (simp_all add: acc)
  from placeMain_inv [OF this, of rnd s item] Cons.IH [of "placeMain rnd s item (c, st)"]
  show ?case
    by (simp add: acc)
qed

lemma placeButton_inv:
  assumes "noSharedSlot (layout st)"
    and "withinBounds (assemblyBounds (c) (d)) (layout st)"
  shows "noSharedSlot (layout (snd (placeButton rnd s item (d, st)))) \<and>
         withinBounds (assemblyBounds (c) (fst (placeButton rnd s item (d, st))))
           (layout (snd (placeButton rnd s item (d, st))))"
proof -
  obtain op n where item: "item = (op, n)" by (cases item)
  let ?X = "\<lambda>k. d + of_nat k * MACHINE_SPACING_X"
  let ?b = "assemblyBounds c d"
  let ?b' = "assemblyBounds c (d + of_nat n * MACHINE_SPACING_X)"
  have beyond: "\<forall>k<n. ?b LaneD \<le> ?X k"
    by (simp add: assemblyBounds_def MACHINE_SPACING_X_def)
  have inj: "inj_on (\<lambda>k. (LaneD, ?X k)) {..<n}"
    by (rule inj_onI) (simp add: MACHINE_SPACING_X_def)
  have before: "\<forall>k<n. ?X k < ?b' LaneD"
    by (simp add: assemblyBounds_def MACHINE_SPACING_X_def)
  have le: "cursors_le ?b ?b'"
    by (simp add: assemblyBounds_def cursors_le_def MACHINE_SPACING_X_def)
  show ?thesis
    using append_machines_inv [OF assms beyond inj before le,
        of rnd "uuid_calls st" op "Some ROT_FACE_FRONT" "Some s"]
    by (simp add: item placeButton_closed)
qed

lemma fold_placeButton_inv:
  assumes "noSharedSlot (layout (snd acc))"
    and "withinBounds (assemblyBounds (c) (fst acc)) (layout (snd acc))"
  shows "noSharedSlot (layout (snd (fold (placeButton rnd s) ops acc))) \<and>
         withinBounds (assemblyBounds (c) (fst (fold (placeButton rnd s) ops acc)))
           (layout (snd (fold (placeButton rnd s) ops acc)))"
  using assms
proof (induction ops arbitrary: acc)
  case Nil
  then show ?case by simp
next
  case (Cons item ops)
  obtain d st where acc: "acc = (d, st)" by (cases acc)
  from Cons.prems have "noSharedSlot (layout st)"
    and "withinBounds (assemblyBounds (c) (d)) (layout st)"
    by (simp_all add: acc)
  from placeButton_inv [OF this, of rnd s item] Cons.IH [of "placeButton rnd s item (d, st)"]
  show ?case
    by (simp add: acc)
qed

lemma cursors_le_assemblyBounds_const: "cursors_le (assemblyBounds c d) (\<lambda>l. max c d)"
  by (simp add: cursors_le_def assemblyBounds_def)

lemma assemblyBounds_same: "assemblyBounds c c = (\<lambda>l. c)"
  by (simp add: assemblyBounds_def fun_eq_iff)

lemma placeAssembly_inv:
  assumes "noSharedSlot (layout st)" and "withinBounds (cursors st) (layout st)"
  shows "noSharedSlot (layout (placeAssembly rnd s ops st)) \<and>
         withinBounds (cursors (placeAssembly rnd s ops st)) (layout (placeAssembly rnd s ops st))"
proof -
  let ?x = "max4 (cursors st) + SECTION_GAP_X"
  let ?st1 = "addBoard rnd ''Assembly'' ?x 0 (syncAll st)"
  let ?buttonOps = "filter isButtonOp ops"
  let ?mainOps = "filter (\<lambda>i. i \<notin> set ?buttonOps) ops"
  let ?main = "fold (placeMain rnd s) ?mainOps (?x, ?st1)"
  let ?button = "fold (placeButton rnd s) ?buttonOps (?x, snd ?main)"
  have "withinBounds (\<lambda>l. ?x) (layout st)"
    using assms(2) cursors_syncAll [of st] by (simp add: withinBounds_mono)
  then have 1: "noSharedSlot (layout (snd (?x, ?st1)))"
    "withinBounds (assemblyBounds (fst (?x, ?st1)) ?x) (layout (snd (?x, ?st1)))"
    using assms(1) by (simp_all add: assemblyBounds_same)
  have 2: "noSharedSlot (layout (snd ?main))"
    "withinBounds (assemblyBounds (fst ?main) ?x) (layout (snd ?main))"
    using fold_placeMain_inv [OF 1, of rnd s ?mainOps] by simp_all
  then have 3: "noSharedSlot (layout (snd (?x, snd ?main)))"
    "withinBounds (assemblyBounds (fst ?main) (fst (?x, snd ?main)))
       (layout (snd (?x, snd ?main)))"
    by simp_all
  have 4: "noSharedSlot (layout (snd ?button))"
    "withinBounds (assemblyBounds (fst ?main) (fst ?button)) (layout (snd ?button))"
    using fold_placeButton_inv [OF 3, of rnd s ?buttonOps] by simp_all
  have "withinBounds (\<lambda>l. max (fst ?main) (fst ?button)) (layout (snd ?button))"
    using 4(2) cursors_le_assemblyBounds_const by (rule withinBounds_mono)
  with 4(1) show ?thesis
    by (simp add: placeAssembly_def assemblyPlace_def Let_def)
qed

lemma endOfSection_inv:
  assumes "noSharedSlot (layout st)" and "withinBounds (cursors st) (layout st)"
  shows "noSharedSlot (layout (endOfSection g s st)) \<and>
         withinBounds (cursors (endOfSection g s st)) (layout (endOfSection g s st))"
proof -
  have "withinBounds (cursors (endOfSection g s st)) (layout st)"
    using assms(2) cursors_endOfSection [of st g s] by (rule withinBounds_mono)
  then have "withinBounds (cursors (endOfSection g s st)) (layout (endOfSection g s st))"
    by (auto simp add: withinBounds_def)
  moreover have "noSharedSlot (layout (endOfSection g s st))"
    using assms(1) by (simp add: noSharedSlot_def)
  ultimately show ?thesis
    by simp
qed

lemma placePrep_inv:
  assumes "noSharedSlot (layout st)" and "withinBounds (cursors st) (layout st)"
  shows "noSharedSlot (layout (placePrep rnd s ops st)) \<and>
         withinBounds (cursors (placePrep rnd s ops st)) (layout (placePrep rnd s ops st))"
proof -
  let ?g = "targetGroupOf (toLowerCase s)"
  let ?st1 = "syncPair ?g st"
  let ?st2 = "addBoard rnd s (pairMax ?g (cursors st) + SECTION_GAP_X)
                (case ?g of AB \<Rightarrow> LANE_Z_A | CD \<Rightarrow> LANE_Z_C) ?st1"
  let ?st3 = "boardClearance ?g ?st2"
  let ?st4 = "fst (fold (placeOp rnd ?g s) ops (?st3, firstLane ?g))"
  have "withinBounds (cursors ?st1) (layout st)"
    using assms(2) cursors_syncPair [of st ?g] by (rule withinBounds_mono)
  then have "withinBounds (cursors ?st2) (layout ?st2)"
    by simp
  then have "withinBounds (cursors ?st3) (layout ?st2)"
    using cursors_boardClearance [of ?st2 ?g] by (rule withinBounds_mono)
  then have 3: "noSharedSlot (layout ?st3)" "withinBounds (cursors ?st3) (layout ?st3)"
    using assms(1) by simp_all
  have 4: "noSharedSlot (layout ?st4)" "withinBounds (cursors ?st4) (layout ?st4)"
    using fold_placeOp_inv [OF 3, of rnd ?g s ops "firstLane ?g"] by simp_all
  have "noSharedSlot (layout (endOfSection ?g s ?st4)) \<and>
      withinBounds (cursors (endOfSection ?g s ?st4)) (layout (endOfSection ?g s ?st4))"
    using 4 by (rule endOfSection_inv)
  then show ?thesis
    by (simp add: placePrep_def Let_def)
qed

lemma placeSection_inv:
  assumes "noSharedSlot (layout st)" and "withinBounds (cursors st) (layout st)"
  shows "noSharedSlot (layout (placeSection rnd m s st)) \<and>
         withinBounds (cursors (placeSection rnd m s st)) (layout (placeSection rnd m s st))"
  using placeAssembly_inv [OF assms] placePrep_inv [OF assms]
  by (simp add: placeSection_def Let_def)

lemma fold_placeSection_inv:
  assumes "noSharedSlot (layout st)" and "withinBounds (cursors st) (layout st)"
  shows "noSharedSlot (layout (fold (placeSection rnd m) secs st))"
  using assms
proof (induction secs arbitrary: st)
  case Nil
  then show ?case by simp
next
  case (Cons s secs)
  show ?case
    using Cons.IH [of "placeSection rnd m s st"] placeSection_inv [OF Cons.prems, of rnd m s]
    by simp
qed

lemma placeAll_noSharedSlot: "noSharedSlot (layout (placeAll rnd bal))"
proof -
  have "noSharedSlot (layout initState)" and "withinBounds (cursors initState) (layout initState)"
    by (simp_all add: initState_def noSharedSlot_def withinBounds_def)
  then show ?thesis
    unfolding placeAll_def Let_def by (rule fold_placeSection_inv)
qed

lemma distinct_map_filter_nth:
  assumes "distinct (map f (filter P xs))" and "i < j" and "j < length xs"
    and "P (xs ! i)" and "P (xs ! j)"
  shows "f (xs ! i) \<noteq> f (xs ! j)"
  using assms
proof (induction xs arbitrary: i j)
  case Nil
  then show ?case by simp
next
  case (Cons x xs)
  obtain j' where j: "j = Suc j'"
    using Cons.prems(2) by (cases j) simp_all
  show ?case
  proof (cases i)
    case 0
    have "xs ! j' \<in> set (filter P xs)"
      using Cons.prems(3,5) j by simp
    then have "f (xs ! j') \<in> f ` set (filter P xs)"
      by (rule imageI)
    then show ?thesis
      using Cons.prems(1,4) 0 j by auto
  next
    case (Suc i')
    have "distinct (map f (filter P xs))"
      using Cons.prems(1) by (simp split: if_splits)
    then show ?thesis
      using Cons.IH [of i' j'] Cons.prems Suc j by simp
  qed
qed

text \<open>
  C2. In the list a successful call returns, two different machine-class entities never
  have both the same lane and the same \<open>position.x\<close>.
\<close>

theorem machines_never_share_slot:
  assumes "generateLayout rnd ops targetOutput workingMinutes = Inr lay"
    and "i < length lay" and "j < length lay" and "i \<noteq> j"
    and "isMachine (lay ! i)" and "isMachine (lay ! j)"
  shows "\<not> (lane (lay ! i) = lane (lay ! j) \<and>
            vx (position (lay ! i)) = vx (position (lay ! j)))"
proof -
  from assms(1) obtain bal where "lay = layout (placeAll rnd bal)"
    by (auto simp add: generateLayout_def split: sum.splits)
  then have d: "distinct (map slot (filter isMachine lay))"
    using placeAll_noSharedSlot [of rnd bal] by (simp add: noSharedSlot_def)
  have "slot (lay ! i) \<noteq> slot (lay ! j)"
  proof (cases "i < j")
    case True
    then show ?thesis
      using distinct_map_filter_nth [OF d True assms(3,5,6)] by simp
  next
    case False
    then have "j < i"
      using assms(4) by simp
    then show ?thesis
      using distinct_map_filter_nth [OF d \<open>j < i\<close> assms(2,6,5)] by simp
  qed
  then show ?thesis
    by (simp add: slot_def)
qed

lemma example_hem:
  "generateLayout (\<lambda>n. ''u'') [hemOp] 480 480 =
     Inr [boardEntity ''u'' ''Sleeve'' 2 LANE_Z_A,
          machineEntity ''u'' hemOp LaneA (7 / 2) 0 None (Some ''Sleeve''),
          machineEntity ''u'' hemOp LaneA (11 / 2) 1 None (Some ''Sleeve''),
          inspectionEntity AB ''Sleeve'' (17 / 2),
          trolleyEntity AB ''Sleeve'' (17 / 2)]"
  by code_simp

theorem machines_never_share_slot_witness:
  "vx (position (machineEntity ''u'' hemOp LaneA (7 / 2) 0 None (Some ''Sleeve''))) \<noteq>
   vx (position (machineEntity ''u'' hemOp LaneA (11 / 2) 1 None (Some ''Sleeve'')))"
proof -
  let ?lay = "[boardEntity ''u'' ''Sleeve'' 2 LANE_Z_A,
          machineEntity ''u'' hemOp LaneA (7 / 2) 0 None (Some ''Sleeve''),
          machineEntity ''u'' hemOp LaneA (11 / 2) 1 None (Some ''Sleeve''),
          inspectionEntity AB ''Sleeve'' (17 / 2),
          trolleyEntity AB ''Sleeve'' (17 / 2)]"
  have "\<not> (lane (?lay ! 1) = lane (?lay ! 2) \<and>
            vx (position (?lay ! 1)) = vx (position (?lay ! 2)))"
    by (rule machines_never_share_slot [OF example_hem]) simp_all
  then show ?thesis
    by (simp add: machineEntity_fields(1))
qed

subsection \<open>Determinism up to identifiers\<close>

lemma stripId_machineEntity:
  "stripId (machineEntity u op la x k f s) = stripId (machineEntity u' op la x k f s)"
  by (simp add: stripId_def machineEntity_def Let_def)

lemma stripId_boardEntity:
  "stripId (boardEntity u name x z) = stripId (boardEntity u' name x z)"
  by (simp add: stripId_def boardEntity_def Let_def)

lemma stripId_machines:
  "map stripId (machines rnd u0 op L X f s n) = map stripId (machines rnd' u0' op L X f s n)"
  using stripId_machineEntity by (simp add: machines_def)

lemma addBoard_same:
  "sameButIds st st' \<Longrightarrow> sameButIds (addBoard rnd name x z st) (addBoard rnd' name x z st')"
  using stripId_boardEntity by (simp add: sameButIds_def)

lemma placeOp_same:
  assumes "sameButIds (fst a) (fst b) \<and> snd a = snd b"
  shows "sameButIds (fst (placeOp rnd g s item a)) (fst (placeOp rnd' g s item b)) \<and>
         snd (placeOp rnd g s item a) = snd (placeOp rnd' g s item b)"
proof -
  obtain op n where item: "item = (op, n)" by (cases item)
  obtain st tg where a: "a = (st, tg)" by (cases a)
  obtain st' tg' where b: "b = (st', tg')" by (cases b)
  show ?thesis
    using assms stripId_machines [of rnd "uuid_calls st" op _ _ None "Some s" n rnd' "uuid_calls st'"]
    by (simp add: item a b placeOp_closed sameButIds_def)
qed

lemma fold_placeOp_same:
  assumes "sameButIds (fst a) (fst b) \<and> snd a = snd b"
  shows "sameButIds (fst (fold (placeOp rnd g s) ops a)) (fst (fold (placeOp rnd' g s) ops b)) \<and>
         snd (fold (placeOp rnd g s) ops a) = snd (fold (placeOp rnd' g s) ops b)"
  using assms
proof (induction ops arbitrary: a b)
  case Nil
  then show ?case by simp
next
  case (Cons item ops)
  show ?case
    using Cons.IH [OF placeOp_same [OF Cons.prems, of rnd g s item rnd']] by simp
qed

lemma placeMain_same:
  assumes "fst a = fst b \<and> sameButIds (snd a) (snd b)"
  shows "fst (placeMain rnd s item a) = fst (placeMain rnd' s item b) \<and>
         sameButIds (snd (placeMain rnd s item a)) (snd (placeMain rnd' s item b))"
proof -
  obtain op n where item: "item = (op, n)" by (cases item)
  obtain c st where a: "a = (c, st)" by (cases a)
  obtain c' st' where b: "b = (c', st')" by (cases b)
  show ?thesis
    using assms stripId_machines [of rnd "uuid_calls st" op _ _ "Some ROT_FACE_FRONT" "Some s" n
        rnd' "uuid_calls st'"]
    by (simp add: item a b placeMain_closed sameButIds_def)
qed

lemma fold_placeMain_same:
  assumes "fst a = fst b \<and> sameButIds (snd a) (snd b)"
  shows "fst (fold (placeMain rnd s) ops a) = fst (fold (placeMain rnd' s) ops b) \<and>
         sameButIds (snd (fold (placeMain rnd s) ops a)) (snd (fold (placeMain rnd' s) ops b))"
  using assms
proof (induction ops arbitrary: a b)
  case Nil
  then show ?case by simp
next
  case (Cons item ops)
  show ?case
    using Cons.IH [OF placeMain_same [OF Cons.prems, of rnd s item rnd']] by simp
qed

lemma placeButton_same:
  assumes "fst a = fst b \<and> sameButIds (snd a) (snd b)"
  shows "fst (placeButton rnd s item a) = fst (placeButton rnd' s item b) \<and>
         sameButIds (snd (placeButton rnd s item a)) (snd (placeButton rnd' s item b))"
proof -
  obtain op n where item: "item = (op, n)" by (cases item)
  obtain c st where a: "a = (c, st)" by (cases a)
  obtain c' st' where b: "b = (c', st')" by (cases b)
  show ?thesis
    using assms stripId_machines [of rnd "uuid_calls st" op _ _ "Some ROT_FACE_FRONT" "Some s" n
        rnd' "uuid_calls st'"]
    by (simp add: item a b placeButton_closed sameButIds_def)
qed

lemma fold_placeButton_same:
  assumes "fst a = fst b \<and> sameButIds (snd a) (snd b)"
  shows "fst (fold (placeButton rnd s) ops a) = fst (fold (placeButton rnd' s) ops b) \<and>
         sameButIds (snd (fold (placeButton rnd s) ops a))
           (snd (fold (placeButton rnd' s) ops b))"
  using assms
proof (induction ops arbitrary: a b)
  case Nil
  then show ?case by simp
next
  case (Cons item ops)
  show ?case
    using Cons.IH [OF placeButton_same [OF Cons.prems, of rnd s item rnd']] by simp
qed

lemma boardClearance_same:
  "sameButIds st st' \<Longrightarrow> sameButIds (boardClearance g st) (boardClearance g st')"
  by (cases g) (auto simp add: sameButIds_def boardClearance_def)

lemma endOfSection_same:
  "sameButIds st st' \<Longrightarrow> sameButIds (endOfSection g s st) (endOfSection g s st')"
  by (simp add: sameButIds_def)

lemma placeAssembly_same:
  assumes "sameButIds st st'"
  shows "sameButIds (placeAssembly rnd s ops st) (placeAssembly rnd' s ops st')"
proof -
  let ?x = "max4 (cursors st) + SECTION_GAP_X"
  let ?buttonOps = "filter isButtonOp ops"
  let ?mainOps = "filter (\<lambda>i. i \<notin> set ?buttonOps) ops"
  let ?st1 = "addBoard rnd ''Assembly'' ?x 0 (syncAll st)"
  let ?st1' = "addBoard rnd' ''Assembly'' ?x 0 (syncAll st')"
  let ?main = "fold (placeMain rnd s) ?mainOps (?x, ?st1)"
  let ?main' = "fold (placeMain rnd' s) ?mainOps (?x, ?st1')"
  let ?button = "fold (placeButton rnd s) ?buttonOps (?x, snd ?main)"
  let ?button' = "fold (placeButton rnd' s) ?buttonOps (?x, snd ?main')"
  have c: "cursors st' = cursors st"
    using assms by (simp add: sameButIds_def)
  have "sameButIds (syncAll st) (syncAll st')"
    using assms by (simp add: sameButIds_def)
  then have "fst (?x, ?st1) = fst (?x, ?st1') \<and> sameButIds (snd (?x, ?st1)) (snd (?x, ?st1'))"
    by (simp add: addBoard_same)
  then have m: "fst ?main = fst ?main' \<and> sameButIds (snd ?main) (snd ?main')"
    by (rule fold_placeMain_same)
  then have "fst (?x, snd ?main) = fst (?x, snd ?main') \<and>
      sameButIds (snd (?x, snd ?main)) (snd (?x, snd ?main'))"
    by simp
  then have "fst ?button = fst ?button' \<and> sameButIds (snd ?button) (snd ?button')"
    by (rule fold_placeButton_same)
  with m show ?thesis
    by (simp add: placeAssembly_def assemblyPlace_def Let_def c sameButIds_def)
qed

lemma placePrep_same:
  assumes "sameButIds st st'"
  shows "sameButIds (placePrep rnd s ops st) (placePrep rnd' s ops st')"
proof -
  let ?g = "targetGroupOf (toLowerCase s)"
  let ?x = "pairMax ?g (cursors st) + SECTION_GAP_X"
  let ?z = "case ?g of AB \<Rightarrow> LANE_Z_A | CD \<Rightarrow> LANE_Z_C"
  let ?st3 = "boardClearance ?g (addBoard rnd s ?x ?z (syncPair ?g st))"
  let ?st3' = "boardClearance ?g (addBoard rnd' s ?x ?z (syncPair ?g st'))"
  let ?r = "fold (placeOp rnd ?g s) ops (?st3, firstLane ?g)"
  let ?r' = "fold (placeOp rnd' ?g s) ops (?st3', firstLane ?g)"
  have c: "cursors st' = cursors st"
    using assms by (simp add: sameButIds_def)
  have "sameButIds (syncPair ?g st) (syncPair ?g st')"
    using assms by (simp add: sameButIds_def)
  then have "sameButIds (addBoard rnd s ?x ?z (syncPair ?g st))
      (addBoard rnd' s ?x ?z (syncPair ?g st'))"
    by (rule addBoard_same)
  then have "sameButIds ?st3 ?st3'"
    by (rule boardClearance_same)
  then have "sameButIds (fst (?st3, firstLane ?g)) (fst (?st3', firstLane ?g)) \<and>
      snd (?st3, firstLane ?g) = snd (?st3', firstLane ?g)"
    by simp
  then have "sameButIds (fst ?r) (fst ?r') \<and> snd ?r = snd ?r'"
    by (rule fold_placeOp_same)
  then have "sameButIds (endOfSection ?g s (fst ?r)) (endOfSection ?g s (fst ?r'))"
    by (simp add: endOfSection_same)
  then show ?thesis
    by (simp add: placePrep_def Let_def c)
qed

lemma placeSection_same:
  "sameButIds st st' \<Longrightarrow> sameButIds (placeSection rnd m s st) (placeSection rnd' m s st')"
  by (simp add: placeSection_def Let_def placeAssembly_same placePrep_same)

lemma fold_placeSection_same:
  "sameButIds st st' \<Longrightarrow>
   sameButIds (fold (placeSection rnd m) secs st) (fold (placeSection rnd' m) secs st')"
  by (induction secs arbitrary: st st') (simp_all add: placeSection_same)

lemma placeAll_same: "sameButIds (placeAll rnd bal) (placeAll rnd' bal)"
proof -
  have "sameButIds initState initState"
    by (simp add: sameButIds_def)
  then show ?thesis
    unfolding placeAll_def Let_def by (rule fold_placeSection_same)
qed

lemma stripId_fields:
  assumes "stripId e = stripId e'"
  shows "lane e = lane e'" and "position e = position e'" and "rotation e = rotation e'"
    and "ent_section e = ent_section e'" and "machineIndex e = machineIndex e'"
    and "operation e = operation e'" and "isInspection e = isInspection e'"
    and "isTrolley e = isTrolley e'"
proof -
  have "lane (stripId e) = lane (stripId e')"
    and "position (stripId e) = position (stripId e')"
    and "rotation (stripId e) = rotation (stripId e')"
    and "ent_section (stripId e) = ent_section (stripId e')"
    and "machineIndex (stripId e) = machineIndex (stripId e')"
    and "operation (stripId e) = operation (stripId e')"
    and "isInspection (stripId e) = isInspection (stripId e')"
    and "isTrolley (stripId e) = isTrolley (stripId e')"
    using assms by simp_all
  then show "lane e = lane e'" and "position e = position e'" and "rotation e = rotation e'"
    and "ent_section e = ent_section e'" and "machineIndex e = machineIndex e'"
    and "operation e = operation e'" and "isInspection e = isInspection e'"
    and "isTrolley e = isTrolley e'"
    by (simp_all add: stripId_def)
qed

subsection \<open>Where a section's objects are in the returned list\<close>

lemma fold_placeOp_prefix:
  "\<exists>ys. layout (fst (fold (placeOp rnd g s) ops a)) = layout (fst a) @ ys"
proof (induction ops arbitrary: a)
  case Nil
  then show ?case by simp
next
  case (Cons item ops)
  obtain op n where item: "item = (op, n)" by (cases item)
  obtain st tg where a: "a = (st, tg)" by (cases a)
  show ?case
    using Cons.IH [of "placeOp rnd g s item a"]
    by (auto simp add: item a placeOp_closed)
qed

lemma fold_placeOp_length:
  "length (layout (fst (fold (placeOp rnd g s) ops a))) =
     length (layout (fst a)) + sum_list (map snd ops)"
proof (induction ops arbitrary: a)
  case Nil
  then show ?case by simp
next
  case (Cons item ops)
  obtain op n where item: "item = (op, n)" by (cases item)
  obtain st tg where a: "a = (st, tg)" by (cases a)
  show ?case
    using Cons.IH [of "placeOp rnd g s item a"]
    by (simp add: item a placeOp_closed)
qed

lemma fold_placeMain_length:
  "length (layout (snd (fold (placeMain rnd s) ops a))) =
     length (layout (snd a)) + sum_list (map snd ops) \<and>
   fst (fold (placeMain rnd s) ops a) =
     fst a + of_int (sum_list (map (\<lambda>i. \<lceil>(of_nat (snd i) :: rat) / 3\<rceil>) ops)) * MACHINE_SPACING_X"
proof (induction ops arbitrary: a)
  case Nil
  then show ?case by simp
next
  case (Cons item ops)
  obtain op n where item: "item = (op, n)" by (cases item)
  obtain c st where a: "a = (c, st)" by (cases a)
  show ?case
    using Cons.IH [of "placeMain rnd s item a"]
    by (simp add: item a placeMain_closed algebra_simps)
qed

lemma fold_placeButton_length:
  "length (layout (snd (fold (placeButton rnd s) ops a))) =
     length (layout (snd a)) + sum_list (map snd ops) \<and>
   fst (fold (placeButton rnd s) ops a) =
     fst a + of_nat (sum_list (map snd ops)) * MACHINE_SPACING_X"
proof (induction ops arbitrary: a)
  case Nil
  then show ?case by simp
next
  case (Cons item ops)
  obtain op n where item: "item = (op, n)" by (cases item)
  obtain c st where a: "a = (c, st)" by (cases a)
  show ?case
    using Cons.IH [of "placeButton rnd s item a"]
    by (simp add: item a placeButton_closed algebra_simps)
qed

lemma placePrep_prefix:
  "\<exists>ys. layout (placePrep rnd s ops st) = layout st @ ys"
proof -
  let ?g = "targetGroupOf (toLowerCase s)"
  let ?st3 = "boardClearance ?g (addBoard rnd s (pairMax ?g (cursors st) + SECTION_GAP_X)
                (case ?g of AB \<Rightarrow> LANE_Z_A | CD \<Rightarrow> LANE_Z_C) (syncPair ?g st))"
  obtain ys where "layout (fst (fold (placeOp rnd ?g s) ops (?st3, firstLane ?g))) =
      layout (fst (?st3, firstLane ?g)) @ ys"
    using fold_placeOp_prefix by blast
  then show ?thesis
    by (simp add: placePrep_def Let_def)
qed

lemma placeSection_prefix:
  "\<exists>ys. layout (placeSection rnd m s st) = layout st @ ys"
proof (cases "str_includes (toLowerCase s) assemblySection")
  case True
  then show ?thesis
    using placeAssembly_board [of rnd s "case m s of Some bucket \<Rightarrow> bucket | None \<Rightarrow> []" st]
    by (auto simp add: placeSection_def Let_def)
next
  case False
  then show ?thesis
    using placePrep_prefix [of rnd s "case m s of Some bucket \<Rightarrow> bucket | None \<Rightarrow> []" st]
    by (simp add: placeSection_def Let_def)
qed

lemma fold_placeSection_prefix:
  "\<exists>ys. layout (fold (placeSection rnd m) secs st) = layout st @ ys"
proof (induction secs arbitrary: st)
  case Nil
  then show ?case by simp
next
  case (Cons s secs)
  obtain ys where "layout (placeSection rnd m s st) = layout st @ ys"
    using placeSection_prefix by blast
  then show ?case
    using Cons.IH [of "placeSection rnd m s st"] by auto
qed

text \<open>The list the call returns starts with what the section at position \<open>p\<close> leaves.\<close>

lemma placeAll_section_prefix:
  assumes "p < length (snd (groupBySection bal))"
  shows "\<exists>ys. layout (placeAll rnd bal) =
           layout (placeSection rnd (fst (groupBySection bal)) (snd (groupBySection bal) ! p)
                     (sectionStart rnd bal p)) @ ys"
proof -
  let ?m = "fst (groupBySection bal)"
  let ?order = "snd (groupBySection bal)"
  have "placeAll rnd bal =
      fold (placeSection rnd ?m) (drop (Suc p) ?order)
        (placeSection rnd ?m (?order ! p) (sectionStart rnd bal p))"
    using fold_split_at [OF assms, of "placeSection rnd ?m" initState]
    by (simp add: placeAll_def Let_def sectionStart_def)
  then show ?thesis
    using fold_placeSection_prefix by simp
qed

lemma section_bucket:
  assumes "p < length (snd (groupBySection bal))"
  shows "fst (groupBySection bal) (snd (groupBySection bal) ! p) =
           Some (sectionBucket bal (snd (groupBySection bal) ! p))"
  using assms by (simp add: groupBySection_dom sectionBucket_def)

lemma nth_in_prefix:
  assumes "full = (xs @ ys) @ zs" and "k < length ys"
  shows "length xs + k < length full \<and> full ! (length xs + k) = ys ! k"
  using assms by (simp add: nth_append)

subsection \<open>Alternation of lanes, in the returned list\<close>

lemma laneSum_snoc:
  "laneSum g la (xs @ [x]) =
     laneSum g la xs + (if runLane g (length xs) = la then snd x else 0)"
proof -
  have eq: "map (\<lambda>j. snd ((xs @ [x]) ! j)) (filter (\<lambda>j. runLane g j = la) [0..<length xs]) =
        map (\<lambda>j. snd (xs ! j)) (filter (\<lambda>j. runLane g j = la) [0..<length xs])"
    by (rule map_cong) (auto simp add: nth_append)
  have "laneSum g la (xs @ [x]) =
      sum_list (map (\<lambda>j. snd ((xs @ [x]) ! j)) (filter (\<lambda>j. runLane g j = la) [0..<length xs])) +
      (if runLane g (length xs) = la then snd x else 0)"
    by (simp add: laneSum_def)
  also have "\<dots> = laneSum g la xs + (if runLane g (length xs) = la then snd x else 0)"
    by (simp only: eq laneSum_def)
  finally show ?thesis .
qed

lemma fold_placeOp_runLane:
  "snd (fold (placeOp rnd g s) xs (st, firstLane g)) = runLane g (length xs)"
  by (simp add: fold_placeOp_toggle runLane_def)

lemma fold_placeOp_cursors:
  "cursors (fst (fold (placeOp rnd g s) xs (st, firstLane g))) la =
     cursors st la + of_nat (laneSum g la xs) * MACHINE_SPACING_X"
proof (induction xs rule: rev_induct)
  case Nil
  then show ?case by (simp add: laneSum_def)
next
  case (snoc x xs)
  obtain op n where x: "x = (op, n)" by (cases x)
  obtain st' tg where r: "fold (placeOp rnd g s) xs (st, firstLane g) = (st', tg)"
    by (cases "fold (placeOp rnd g s) xs (st, firstLane g)")
  have tg: "tg = runLane g (length xs)"
    using fold_placeOp_runLane [of rnd g s xs st] r by simp
  show ?case
    using snoc tg by (auto simp add: r x placeOp_closed laneSum_snoc algebra_simps)
qed

lemma loopStart_cursor:
  "cursors (boardClearance g (addBoard rnd s x z (syncPair g st))) (runLane g j) =
     pairMax g (cursors st) + SECTION_GAP_X + BOARD_GAP"
  by (cases g)
     (simp_all add: boardClearance_def setPair_def runLane_def firstLane_def secondLane_def)

text \<open>
  C3. Let a successful call reach, at position \<open>p\<close> of the section order, a section that
  is not an assembly section, and take the operation at (zero-based) position \<open>i\<close> of
  that section's operations in input order. The lane of the operation is the pair's first
  lane (A for the pair AB, C for CD) when \<open>i\<close> is even and the second (B, D) when \<open>i\<close>
  is odd. The returned list holds the operation's \<open>count\<close> machines one after another,
  after the section's board and the machines of the earlier operations; instance \<open>k\<close> is
  in that lane, records \<open>machineIndex = k\<close> and sits \<open>k\<close> machine pitches after the
  lane's cursor, which by then has passed the section start, the board clearance and the
  machines the earlier operations sent to the same lane. The operation advances that
  lane's cursor by \<open>count\<close> pitches and changes no other cursor, and the section ends
  with the fixtures after the remaining operations.
\<close>

theorem operations_alternate_lanes:
  assumes "calculateMachineRequirements ops targetOutput workingMinutes = Inr bal"
    and "p < length (snd (groupBySection bal))"
    and "secName = snd (groupBySection bal) ! p"
    and "\<not> str_includes (toLowerCase secName) assemblySection"
    and "i < length (sectionBucket bal secName)"
  shows "let lay = layout (placeAll rnd bal);
             bucket = sectionBucket bal secName;
             g = targetGroupOf (toLowerCase secName);
             st_p = sectionStart rnd bal p;
             startX = pairMax g (cursors st_p) + SECTION_GAP_X;
             loopStart = boardClearance g
               (addBoard rnd secName startX (case g of AB \<Rightarrow> LANE_Z_A | CD \<Rightarrow> LANE_Z_C)
                  (syncPair g st_p));
             before = fold (placeOp rnd g secName) (take i bucket) (loopStart, firstLane g);
             after = placeOp rnd g secName (bucket ! i) before;
             currentLane = runLane g i;
             count = snd (bucket ! i);
             first = length (layout st_p) + 1 + sum_list (map snd (take i bucket))
         in generateLayout rnd ops targetOutput workingMinutes = Inr lay \<and>
            firstLane AB = LaneA \<and> secondLane AB = LaneB \<and>
            firstLane CD = LaneC \<and> secondLane CD = LaneD \<and>
            snd before = currentLane \<and>
            placeSection rnd (fst (groupBySection bal)) secName st_p =
              endOfSection g secName
                (fst (fold (placeOp rnd g secName) (drop (Suc i) bucket) after)) \<and>
            (\<forall>k<count.
               first + k < length lay \<and>
               lane (lay ! (first + k)) = currentLane \<and>
               operation (lay ! (first + k)) = fst (bucket ! i) \<and>
               vx (position (lay ! (first + k))) =
                 startX + BOARD_GAP +
                 of_nat (laneSum g currentLane (take i bucket) + k) * MACHINE_SPACING_X \<and>
               machineIndex (lay ! (first + k)) = Some (int k)) \<and>
            cursors (fst before) currentLane =
              startX + BOARD_GAP +
              of_nat (laneSum g currentLane (take i bucket)) * MACHINE_SPACING_X \<and>
            cursors (fst after) currentLane =
              cursors (fst before) currentLane + of_nat count * MACHINE_SPACING_X \<and>
            (\<forall>l. l \<noteq> currentLane \<longrightarrow> cursors (fst after) l = cursors (fst before) l)"
proof -
  let ?m = "fst (groupBySection bal)"
  let ?lay = "layout (placeAll rnd bal)"
  let ?bucket = "sectionBucket bal secName"
  let ?g = "targetGroupOf (toLowerCase secName)"
  let ?st_p = "sectionStart rnd bal p"
  let ?startX = "pairMax ?g (cursors ?st_p) + SECTION_GAP_X"
  let ?loopStart = "boardClearance ?g
      (addBoard rnd secName ?startX (case ?g of AB \<Rightarrow> LANE_Z_A | CD \<Rightarrow> LANE_Z_C)
         (syncPair ?g ?st_p))"
  let ?tg = "runLane ?g i"
  obtain op n where item: "?bucket ! i = (op, n)"
    by (cases "?bucket ! i")
  obtain st_i tg where before:
    "fold (placeOp rnd ?g secName) (take i ?bucket) (?loopStart, firstLane ?g) = (st_i, tg)"
    by (cases "fold (placeOp rnd ?g secName) (take i ?bucket) (?loopStart, firstLane ?g)")
  let ?X = "\<lambda>k. cursors st_i ?tg + of_nat k * MACHINE_SPACING_X"
  let ?ms = "machines rnd (uuid_calls st_i) op (\<lambda>k. ?tg) ?X None (Some secName) n"
  let ?after = "placeOp rnd ?g secName (?bucket ! i) (st_i, tg)"
  have run: "generateLayout rnd ops targetOutput workingMinutes = Inr ?lay"
    using assms(1) by (simp add: generateLayout_def)
  have lanes: "firstLane AB = LaneA \<and> secondLane AB = LaneB \<and>
      firstLane CD = LaneC \<and> secondLane CD = LaneD"
    by (simp add: firstLane_def secondLane_def)
  have tg: "tg = ?tg"
    using fold_placeOp_runLane [of rnd ?g secName "take i ?bucket" ?loopStart] before assms(5)
    by simp
  have bucket: "?m secName = Some ?bucket"
    using section_bucket [OF assms(2)] assms(3) by simp
  have split: "fold (placeOp rnd ?g secName) ?bucket (?loopStart, firstLane ?g) =
      fold (placeOp rnd ?g secName) (drop (Suc i) ?bucket) ?after"
    using fold_split_at [OF assms(5), of "placeOp rnd ?g secName" "(?loopStart, firstLane ?g)"]
      before by simp
  have sect: "placeSection rnd ?m secName ?st_p =
      endOfSection ?g secName (fst (fold (placeOp rnd ?g secName) (drop (Suc i) ?bucket) ?after))"
    using assms(4) split
    by (simp add: placeSection_def placePrep_def Let_def bucket)
  have after: "layout (fst ?after) = layout st_i @ ?ms"
    and c_after: "cursors (fst ?after) = (cursors st_i)(?tg := cursors st_i ?tg
        + of_nat n * MACHINE_SPACING_X)"
    by (simp_all add: item placeOp_closed tg)
  obtain ys where ys: "layout (fst (fold (placeOp rnd ?g secName) (drop (Suc i) ?bucket) ?after))
      = layout (fst ?after) @ ys"
    using fold_placeOp_prefix by blast
  obtain zs where zs: "?lay = layout (placeSection rnd ?m secName ?st_p) @ zs"
    using placeAll_section_prefix [OF assms(2), of rnd] assms(3) by auto
  have full: "?lay = (layout st_i @ ?ms) @
      (ys @ [inspectionEntity ?g secName
               (pairMax ?g (cursors (fst (fold (placeOp rnd ?g secName) (drop (Suc i) ?bucket)
                  ?after))) + SECTION_GAP_X / 2),
             trolleyEntity ?g secName
               (pairMax ?g (cursors (fst (fold (placeOp rnd ?g secName) (drop (Suc i) ?bucket)
                  ?after))) + SECTION_GAP_X / 2)] @ zs)"
    by (simp add: zs sect ys after)
  have len: "length (layout st_i) = length (layout ?st_p) + 1 + sum_list (map snd (take i ?bucket))"
    using fold_placeOp_length [of rnd ?g secName "take i ?bucket" "(?loopStart, firstLane ?g)"]
      before by simp
  have cur: "cursors st_i ?tg =
      ?startX + BOARD_GAP + of_nat (laneSum ?g ?tg (take i ?bucket)) * MACHINE_SPACING_X"
    using fold_placeOp_cursors [of rnd ?g secName "take i ?bucket" ?loopStart ?tg] before
    by (simp add: loopStart_cursor)
  have each: "length (layout st_i) + k < length ?lay \<and>
      lane (?lay ! (length (layout st_i) + k)) = ?tg \<and>
      operation (?lay ! (length (layout st_i) + k)) = op \<and>
      vx (position (?lay ! (length (layout st_i) + k))) =
        ?startX + BOARD_GAP +
        of_nat (laneSum ?g ?tg (take i ?bucket) + k) * MACHINE_SPACING_X \<and>
      machineIndex (?lay ! (length (layout st_i) + k)) = Some (int k)" if "k < n" for k
  proof -
    have "k < length ?ms"
      using that by simp
    from nth_in_prefix [OF full this]
    have "length (layout st_i) + k < length ?lay"
      and "?lay ! (length (layout st_i) + k) = ?ms ! k"
      by simp_all
    then show ?thesis
      using that by (simp add: nth_machines machineEntity_fields cur algebra_simps)
  qed
  show ?thesis
    using run lanes tg sect each cur c_after
    by (simp add: Let_def before item len)
qed

lemma example_keys:
  "sectionKey (hemOp, n) = ''Sleeve''" "sectionKey (tackOp, n) = ''Sleeve''"
  "sectionKey (joinOp, n) = ''Assembly''" "sectionKey (buttonOp, n) = ''Assembly''"
  "sectionKey (cuffOp, n) = ''Cuff''"
  by (simp_all add: sectionKey_def hemOp_def tackOp_def joinOp_def buttonOp_def cuffOp_def)

lemma example_sections:
  "\<not> str_includes (toLowerCase ''Sleeve'') assemblySection"
  "\<not> str_includes (toLowerCase ''Cuff'') assemblySection"
  "str_includes (toLowerCase ''Assembly'') assemblySection"
  "targetGroupOf (toLowerCase ''Sleeve'') = AB"
  by code_simp+

theorem operations_alternate_lanes_witness:
  "generateLayout (\<lambda>n. ''u'') [hemOp, tackOp] 480 480 =
     Inr (layout (placeAll (\<lambda>n. ''u'') [(hemOp, 2), (tackOp, 1)])) \<and>
   3 < length (layout (placeAll (\<lambda>n. ''u'') [(hemOp, 2), (tackOp, 1)])) \<and>
   lane (layout (placeAll (\<lambda>n. ''u'') [(hemOp, 2), (tackOp, 1)]) ! 3) = LaneB \<and>
   operation (layout (placeAll (\<lambda>n. ''u'') [(hemOp, 2), (tackOp, 1)]) ! 3) = tackOp \<and>
   vx (position (layout (placeAll (\<lambda>n. ''u'') [(hemOp, 2), (tackOp, 1)]) ! 3)) = 7 / 2"
proof -
  let ?bal = "[(hemOp, 2 :: nat), (tackOp, 1)]"
  have calc: "calculateMachineRequirements [hemOp, tackOp] 480 480 = Inr ?bal"
    by (simp add: calculateMachineRequirements_def hemOp_def tackOp_def)
  have order: "snd (groupBySection ?bal) = [''Sleeve'']"
    by (simp add: groupBySection_char example_keys)
  have p: "0 < length (snd (groupBySection ?bal))"
    using order by simp
  have sec: "''Sleeve'' = snd (groupBySection ?bal) ! 0"
    using order by simp
  have bucket: "sectionBucket ?bal ''Sleeve'' = ?bal"
    by (simp add: sectionBucket_def example_keys)
  have i: "1 < length (sectionBucket ?bal ''Sleeve'')"
    using bucket by simp
  have ls: "laneSum AB LaneB (take 1 ?bal) = 0"
    by (simp add: laneSum_def runLane_def firstLane_def secondLane_def)
  have start: "sectionStart (\<lambda>n. ''u'') ?bal 0 = initState"
    by (simp add: sectionStart_def)
  note T = operations_alternate_lanes [OF calc p sec example_sections(1) i, of "\<lambda>n. ''u''",
      unfolded Let_def bucket example_sections(4) start]
  have run: "generateLayout (\<lambda>n. ''u'') [hemOp, tackOp] 480 480 = Inr (layout (placeAll (\<lambda>n. ''u'') ?bal))"
    using T by blast
  have "\<forall>k<snd (?bal ! 1).
      length (layout initState) + 1 + sum_list (map snd (take 1 ?bal)) + k
        < length (layout (placeAll (\<lambda>n. ''u'') ?bal)) \<and>
      lane (layout (placeAll (\<lambda>n. ''u'') ?bal) !
         (length (layout initState) + 1 + sum_list (map snd (take 1 ?bal)) + k)) = runLane AB 1 \<and>
      operation (layout (placeAll (\<lambda>n. ''u'') ?bal) !
         (length (layout initState) + 1 + sum_list (map snd (take 1 ?bal)) + k)) = fst (?bal ! 1) \<and>
      vx (position (layout (placeAll (\<lambda>n. ''u'') ?bal) !
         (length (layout initState) + 1 + sum_list (map snd (take 1 ?bal)) + k))) =
        pairMax AB (cursors initState) + SECTION_GAP_X + BOARD_GAP +
        of_nat (laneSum AB (runLane AB 1) (take 1 ?bal) + k) * MACHINE_SPACING_X \<and>
      machineIndex (layout (placeAll (\<lambda>n. ''u'') ?bal) !
         (length (layout initState) + 1 + sum_list (map snd (take 1 ?bal)) + k)) = Some (int k)"
    using T by blast
  then have "3 < length (layout (placeAll (\<lambda>n. ''u'') ?bal)) \<and>
      lane (layout (placeAll (\<lambda>n. ''u'') ?bal) ! 3) = LaneB \<and>
      operation (layout (placeAll (\<lambda>n. ''u'') ?bal) ! 3) = tackOp \<and>
      vx (position (layout (placeAll (\<lambda>n. ''u'') ?bal) ! 3)) = 7 / 2"
    using ls
    by (simp add: initState_def runLane_def secondLane_def pairMax_def SECTION_GAP_X_def
          BOARD_GAP_def numeral_3_eq_3)
  with run show ?thesis
    by simp
qed

subsection \<open>An assembly section, in the returned list\<close>

lemma mainOps_filter:
  "filter (\<lambda>i. i \<notin> set (filter isButtonOp ops)) ops = filter (\<lambda>i. \<not> isButtonOp i) ops"
  by (rule filter_cong) auto

lemma fold_placeMain_at:
  assumes "i < length xs"
  shows "\<exists>u post. layout (snd (fold (placeMain rnd s) xs a)) =
     (layout (snd (fold (placeMain rnd s) (take i xs) a)) @
      machines rnd u (fst (xs ! i)) (\<lambda>k. [LaneA, LaneB, LaneC] ! (k mod 3))
        (\<lambda>k. fst (fold (placeMain rnd s) (take i xs) a) + of_nat (k div 3) * MACHINE_SPACING_X)
        (Some ROT_FACE_FRONT) (Some s) (snd (xs ! i))) @ post"
proof -
  obtain op n where item: "xs ! i = (op, n)" by (cases "xs ! i")
  obtain c st where before: "fold (placeMain rnd s) (take i xs) a = (c, st)"
    by (cases "fold (placeMain rnd s) (take i xs) a")
  have "fold (placeMain rnd s) xs a =
      fold (placeMain rnd s) (drop (Suc i) xs) (placeMain rnd s (xs ! i) (c, st))"
    using fold_split_at [OF assms, of "placeMain rnd s" a] before by simp
  moreover obtain post where
    "layout (snd (fold (placeMain rnd s) (drop (Suc i) xs) (placeMain rnd s (xs ! i) (c, st)))) =
       layout (snd (placeMain rnd s (xs ! i) (c, st))) @ post"
    using fold_placeMain_prefix by blast
  ultimately show ?thesis
    by (auto simp add: before item placeMain_closed)
qed

lemma fold_placeButton_at:
  assumes "i < length xs"
  shows "\<exists>u post. layout (snd (fold (placeButton rnd s) xs a)) =
     (layout (snd (fold (placeButton rnd s) (take i xs) a)) @
      machines rnd u (fst (xs ! i)) (\<lambda>k. LaneD)
        (\<lambda>k. fst (fold (placeButton rnd s) (take i xs) a) + of_nat k * MACHINE_SPACING_X)
        (Some ROT_FACE_FRONT) (Some s) (snd (xs ! i))) @ post"
proof -
  obtain op n where item: "xs ! i = (op, n)" by (cases "xs ! i")
  obtain c st where before: "fold (placeButton rnd s) (take i xs) a = (c, st)"
    by (cases "fold (placeButton rnd s) (take i xs) a")
  have "fold (placeButton rnd s) xs a =
      fold (placeButton rnd s) (drop (Suc i) xs) (placeButton rnd s (xs ! i) (c, st))"
    using fold_split_at [OF assms, of "placeButton rnd s" a] before by simp
  moreover obtain post where
    "layout (snd (fold (placeButton rnd s) (drop (Suc i) xs)
        (placeButton rnd s (xs ! i) (c, st)))) =
       layout (snd (placeButton rnd s (xs ! i) (c, st))) @ post"
    using fold_placeButton_prefix by blast
  ultimately show ?thesis
    by (auto simp add: before item placeButton_closed)
qed

text \<open>What an assembly section leaves, in terms of its two loops.\<close>

lemma placeAssembly_layout:
  "layout (placeAssembly rnd s ops st) =
     layout (snd (fold (placeButton rnd s) (filter isButtonOp ops)
       (max4 (cursors st) + SECTION_GAP_X,
        snd (fold (placeMain rnd s) (filter (\<lambda>i. \<not> isButtonOp i) ops)
          (max4 (cursors st) + SECTION_GAP_X,
           addBoard rnd ''Assembly'' (max4 (cursors st) + SECTION_GAP_X) 0 (syncAll st))))))"
  unfolding placeAssembly_def assemblyPlace_def Let_def mainOps_filter by simp

text \<open>
  C4. Let a successful call reach, at position \<open>p\<close> of the section order, an assembly
  section. Its main operations are those of its operations (in input order) that are not
  buttoning ones. After the section's board the returned list holds the machines of the
  main operations, operation by operation: instance \<open>k\<close> of a main operation is in lane
  \<open>[A, B, C] ! (k mod 3)\<close>, at the operation's offset plus \<open>k div 3\<close> machine pitches
  (the operation's offset is the section start plus one pitch for every row the earlier
  main operations took), and faces front. Then come the machines of the buttoning
  operations, all in lane D, facing front, one pitch after another from the section start.
  The section pushes nothing else. Every machine of an assembly section in the returned
  list faces front and is in lane D exactly when its operation is a buttoning one. A
  section of three main operations of three machines each yields nine machines, each
  operation's three in lanes A, B, C at one offset.
\<close>

theorem assembly_round_robin:
  assumes "calculateMachineRequirements ops targetOutput workingMinutes = Inr bal"
    and "p < length (snd (groupBySection bal))"
    and "secName = snd (groupBySection bal) ! p"
    and "str_includes (toLowerCase secName) assemblySection"
  shows "let lay = layout (placeAll rnd bal);
             bucket = sectionBucket bal secName;
             mainOps = filter (\<lambda>i. \<not> isButtonOp i) bucket;
             buttonOps = filter isButtonOp bucket;
             st_p = sectionStart rnd bal p;
             startX = max4 (cursors st_p) + SECTION_GAP_X;
             base = length (layout st_p)
         in generateLayout rnd ops targetOutput workingMinutes = Inr lay \<and>
            (\<forall>i<length mainOps. \<forall>k<snd (mainOps ! i).
               base + 1 + sum_list (map snd (take i mainOps)) + k < length lay \<and>
               lane (lay ! (base + 1 + sum_list (map snd (take i mainOps)) + k)) =
                 [LaneA, LaneB, LaneC] ! (k mod 3) \<and>
               vx (position (lay ! (base + 1 + sum_list (map snd (take i mainOps)) + k))) =
                 startX +
                 of_int (sum_list (map (\<lambda>j. \<lceil>(of_nat (snd j) :: rat) / 3\<rceil>) (take i mainOps)))
                   * MACHINE_SPACING_X +
                 of_nat (k div 3) * MACHINE_SPACING_X \<and>
               vy (rotation (lay ! (base + 1 + sum_list (map snd (take i mainOps)) + k))) =
                 ROT_FACE_FRONT \<and>
               operation (lay ! (base + 1 + sum_list (map snd (take i mainOps)) + k)) =
                 fst (mainOps ! i) \<and>
               machineIndex (lay ! (base + 1 + sum_list (map snd (take i mainOps)) + k)) =
                 Some (int k)) \<and>
            (\<forall>i<length buttonOps. \<forall>k<snd (buttonOps ! i).
               base + 1 + sum_list (map snd mainOps) + sum_list (map snd (take i buttonOps)) + k
                 < length lay \<and>
               lane (lay ! (base + 1 + sum_list (map snd mainOps)
                              + sum_list (map snd (take i buttonOps)) + k)) = LaneD \<and>
               vx (position (lay ! (base + 1 + sum_list (map snd mainOps)
                              + sum_list (map snd (take i buttonOps)) + k))) =
                 startX + of_nat (sum_list (map snd (take i buttonOps)) + k) * MACHINE_SPACING_X \<and>
               vy (rotation (lay ! (base + 1 + sum_list (map snd mainOps)
                              + sum_list (map snd (take i buttonOps)) + k))) = ROT_FACE_FRONT \<and>
               operation (lay ! (base + 1 + sum_list (map snd mainOps)
                              + sum_list (map snd (take i buttonOps)) + k)) = fst (buttonOps ! i) \<and>
               machineIndex (lay ! (base + 1 + sum_list (map snd mainOps)
                              + sum_list (map snd (take i buttonOps)) + k)) = Some (int k)) \<and>
            length (layout (placeSection rnd (fst (groupBySection bal)) secName st_p)) =
              base + 1 + sum_list (map snd mainOps) + sum_list (map snd buttonOps) \<and>
            (\<forall>e\<in>set lay.
               isMachine e \<and> str_includes (toLowerCase (ent_section e)) assemblySection \<longrightarrow>
               vy (rotation e) = ROT_FACE_FRONT \<and>
               (if isButtonOp (operation e, n) then lane e = LaneD
                else lane e = LaneA \<or> lane e = LaneB \<or> lane e = LaneC)) \<and>
            (sectionsMap secName = Some [(oa, 3), (ob, 3), (oc, 3)] \<and>
             \<not> isButtonOp (oa, 3) \<and> \<not> isButtonOp (ob, 3) \<and> \<not> isButtonOp (oc, 3) \<longrightarrow>
               map (\<lambda>e. (lane e, vx (position e), vy (rotation e), operation e))
                 (drop (Suc (length (layout st)))
                    (layout (placeSection rnd sectionsMap secName st))) =
               [(LaneA, max4 (cursors st) + SECTION_GAP_X, ROT_FACE_FRONT, oa),
                (LaneB, max4 (cursors st) + SECTION_GAP_X, ROT_FACE_FRONT, oa),
                (LaneC, max4 (cursors st) + SECTION_GAP_X, ROT_FACE_FRONT, oa),
                (LaneA, max4 (cursors st) + SECTION_GAP_X + MACHINE_SPACING_X, ROT_FACE_FRONT, ob),
                (LaneB, max4 (cursors st) + SECTION_GAP_X + MACHINE_SPACING_X, ROT_FACE_FRONT, ob),
                (LaneC, max4 (cursors st) + SECTION_GAP_X + MACHINE_SPACING_X, ROT_FACE_FRONT, ob),
                (LaneA, max4 (cursors st) + SECTION_GAP_X + 2 * MACHINE_SPACING_X,
                   ROT_FACE_FRONT, oc),
                (LaneB, max4 (cursors st) + SECTION_GAP_X + 2 * MACHINE_SPACING_X,
                   ROT_FACE_FRONT, oc),
                (LaneC, max4 (cursors st) + SECTION_GAP_X + 2 * MACHINE_SPACING_X,
                   ROT_FACE_FRONT, oc)])"
proof -
  let ?m = "fst (groupBySection bal)"
  let ?lay = "layout (placeAll rnd bal)"
  let ?bucket = "sectionBucket bal secName"
  let ?mainOps = "filter (\<lambda>i. \<not> isButtonOp i) ?bucket"
  let ?buttonOps = "filter isButtonOp ?bucket"
  let ?st_p = "sectionStart rnd bal p"
  let ?x = "max4 (cursors ?st_p) + SECTION_GAP_X"
  let ?base = "length (layout ?st_p)"
  let ?a = "(?x, addBoard rnd ''Assembly'' ?x 0 (syncAll ?st_p))"
  let ?main = "fold (placeMain rnd secName) ?mainOps ?a"
  let ?b = "(?x, snd ?main)"
  let ?button = "fold (placeButton rnd secName) ?buttonOps ?b"
  have run: "generateLayout rnd ops targetOutput workingMinutes = Inr ?lay"
    using assms(1) by (simp add: generateLayout_def)
  have bucket: "?m secName = Some ?bucket"
    using section_bucket [OF assms(2)] assms(3) by simp
  have sect: "layout (placeSection rnd ?m secName ?st_p) = layout (snd ?button)"
    using assms(4) by (simp add: placeSection_def Let_def bucket placeAssembly_layout)
  obtain zs where zs: "?lay = layout (snd ?button) @ zs"
    using placeAll_section_prefix [OF assms(2), of rnd] assms(3) sect by auto
  obtain bs where bs: "layout (snd ?button) = layout (snd ?main) @ bs"
    using fold_placeButton_prefix [of rnd secName ?buttonOps ?b] by auto
  have len_main: "length (layout (snd ?main)) = ?base + 1 + sum_list (map snd ?mainOps)"
    using fold_placeMain_length [of rnd secName ?mainOps ?a] by simp
  have len: "length (layout (placeSection rnd ?m secName ?st_p)) =
      ?base + 1 + sum_list (map snd ?mainOps) + sum_list (map snd ?buttonOps)"
    using fold_placeButton_length [of rnd secName ?buttonOps ?b] len_main by (simp add: sect)
  have main: "?base + 1 + sum_list (map snd (take i ?mainOps)) + k < length ?lay \<and>
      lane (?lay ! (?base + 1 + sum_list (map snd (take i ?mainOps)) + k)) =
        [LaneA, LaneB, LaneC] ! (k mod 3) \<and>
      vx (position (?lay ! (?base + 1 + sum_list (map snd (take i ?mainOps)) + k))) =
        ?x + of_int (sum_list (map (\<lambda>j. \<lceil>(of_nat (snd j) :: rat) / 3\<rceil>) (take i ?mainOps)))
               * MACHINE_SPACING_X + of_nat (k div 3) * MACHINE_SPACING_X \<and>
      vy (rotation (?lay ! (?base + 1 + sum_list (map snd (take i ?mainOps)) + k))) =
        ROT_FACE_FRONT \<and>
      operation (?lay ! (?base + 1 + sum_list (map snd (take i ?mainOps)) + k)) =
        fst (?mainOps ! i) \<and>
      machineIndex (?lay ! (?base + 1 + sum_list (map snd (take i ?mainOps)) + k)) = Some (int k)"
    if i: "i < length ?mainOps" and kn: "k < snd (?mainOps ! i)" for i k
  proof -
    let ?pre = "layout (snd (fold (placeMain rnd secName) (take i ?mainOps) ?a))"
    let ?c = "fst (fold (placeMain rnd secName) (take i ?mainOps) ?a)"
    obtain u post where at: "layout (snd ?main) =
        (?pre @ machines rnd u (fst (?mainOps ! i)) (\<lambda>k. [LaneA, LaneB, LaneC] ! (k mod 3))
           (\<lambda>k. ?c + of_nat (k div 3) * MACHINE_SPACING_X)
           (Some ROT_FACE_FRONT) (Some secName) (snd (?mainOps ! i))) @ post"
      using fold_placeMain_at [OF i, of rnd secName ?a] by blast
    let ?ms = "machines rnd u (fst (?mainOps ! i)) (\<lambda>k. [LaneA, LaneB, LaneC] ! (k mod 3))
           (\<lambda>k. ?c + of_nat (k div 3) * MACHINE_SPACING_X)
           (Some ROT_FACE_FRONT) (Some secName) (snd (?mainOps ! i))"
    have full: "?lay = (?pre @ ?ms) @ (post @ bs @ zs)"
      by (simp add: zs bs at)
    have k: "k < length ?ms"
      using kn by simp
    have pre: "length ?pre = ?base + 1 + sum_list (map snd (take i ?mainOps))"
      and c: "?c = ?x + of_int (sum_list (map (\<lambda>j. \<lceil>(of_nat (snd j) :: rat) / 3\<rceil>)
                 (take i ?mainOps))) * MACHINE_SPACING_X"
      using fold_placeMain_length [of rnd secName "take i ?mainOps" ?a] by simp_all
    from nth_in_prefix [OF full k]
    have "length ?pre + k < length ?lay" and "?lay ! (length ?pre + k) = ?ms ! k"
      by simp_all
    then show ?thesis
      using kn unfolding pre by (simp add: nth_machines machineEntity_fields c)
  qed
  have button: "?base + 1 + sum_list (map snd ?mainOps) + sum_list (map snd (take i ?buttonOps)) + k
        < length ?lay \<and>
      lane (?lay ! (?base + 1 + sum_list (map snd ?mainOps)
                     + sum_list (map snd (take i ?buttonOps)) + k)) = LaneD \<and>
      vx (position (?lay ! (?base + 1 + sum_list (map snd ?mainOps)
                     + sum_list (map snd (take i ?buttonOps)) + k))) =
        ?x + of_nat (sum_list (map snd (take i ?buttonOps)) + k) * MACHINE_SPACING_X \<and>
      vy (rotation (?lay ! (?base + 1 + sum_list (map snd ?mainOps)
                     + sum_list (map snd (take i ?buttonOps)) + k))) = ROT_FACE_FRONT \<and>
      operation (?lay ! (?base + 1 + sum_list (map snd ?mainOps)
                     + sum_list (map snd (take i ?buttonOps)) + k)) = fst (?buttonOps ! i) \<and>
      machineIndex (?lay ! (?base + 1 + sum_list (map snd ?mainOps)
                     + sum_list (map snd (take i ?buttonOps)) + k)) = Some (int k)"
    if i: "i < length ?buttonOps" and kn: "k < snd (?buttonOps ! i)" for i k
  proof -
    let ?pre = "layout (snd (fold (placeButton rnd secName) (take i ?buttonOps) ?b))"
    let ?c = "fst (fold (placeButton rnd secName) (take i ?buttonOps) ?b)"
    obtain u post where at: "layout (snd ?button) =
        (?pre @ machines rnd u (fst (?buttonOps ! i)) (\<lambda>k. LaneD)
           (\<lambda>k. ?c + of_nat k * MACHINE_SPACING_X)
           (Some ROT_FACE_FRONT) (Some secName) (snd (?buttonOps ! i))) @ post"
      using fold_placeButton_at [OF i, of rnd secName ?b] by blast
    let ?ms = "machines rnd u (fst (?buttonOps ! i)) (\<lambda>k. LaneD)
           (\<lambda>k. ?c + of_nat k * MACHINE_SPACING_X)
           (Some ROT_FACE_FRONT) (Some secName) (snd (?buttonOps ! i))"
    have full: "?lay = (?pre @ ?ms) @ (post @ zs)"
      by (simp add: zs at)
    have k: "k < length ?ms"
      using kn by simp
    have pre: "length ?pre =
        ?base + 1 + sum_list (map snd ?mainOps) + sum_list (map snd (take i ?buttonOps))"
      and c: "?c = ?x + of_nat (sum_list (map snd (take i ?buttonOps))) * MACHINE_SPACING_X"
      using fold_placeButton_length [of rnd secName "take i ?buttonOps" ?b] len_main
      by simp_all
    have x: "?c + of_nat k * MACHINE_SPACING_X =
        ?x + of_nat (sum_list (map snd (take i ?buttonOps)) + k) * MACHINE_SPACING_X"
      unfolding c by (simp add: algebra_simps)
    from nth_in_prefix [OF full k]
    have "length ?pre + k < length ?lay" and "?lay ! (length ?pre + k) = ?ms ! k"
      by simp_all
    then show ?thesis
      using kn x unfolding pre
      by (simp add: nth_machines machineEntity_fields)
  qed
  have safety: "vy (rotation e) = ROT_FACE_FRONT \<and>
      (if isButtonOp (operation e, n) then lane e = LaneD
       else lane e = LaneA \<or> lane e = LaneB \<or> lane e = LaneC)"
    if "e \<in> set ?lay"
      and "isMachine e \<and> str_includes (toLowerCase (ent_section e)) assemblySection" for e
  proof -
    have "emitted e"
      using placeAll_emitted [of rnd bal] that(1) by (simp add: list_all_iff)
    then show ?thesis
      using assembly_machine_lane [of e n] that(2) by simp
  qed
  have example: "map (\<lambda>e. (lane e, vx (position e), vy (rotation e), operation e))
        (drop (Suc (length (layout st))) (layout (placeSection rnd sectionsMap secName st))) =
      [(LaneA, max4 (cursors st) + SECTION_GAP_X, ROT_FACE_FRONT, oa),
       (LaneB, max4 (cursors st) + SECTION_GAP_X, ROT_FACE_FRONT, oa),
       (LaneC, max4 (cursors st) + SECTION_GAP_X, ROT_FACE_FRONT, oa),
       (LaneA, max4 (cursors st) + SECTION_GAP_X + MACHINE_SPACING_X, ROT_FACE_FRONT, ob),
       (LaneB, max4 (cursors st) + SECTION_GAP_X + MACHINE_SPACING_X, ROT_FACE_FRONT, ob),
       (LaneC, max4 (cursors st) + SECTION_GAP_X + MACHINE_SPACING_X, ROT_FACE_FRONT, ob),
       (LaneA, max4 (cursors st) + SECTION_GAP_X + 2 * MACHINE_SPACING_X, ROT_FACE_FRONT, oc),
       (LaneB, max4 (cursors st) + SECTION_GAP_X + 2 * MACHINE_SPACING_X, ROT_FACE_FRONT, oc),
       (LaneC, max4 (cursors st) + SECTION_GAP_X + 2 * MACHINE_SPACING_X, ROT_FACE_FRONT, oc)]"
    if "sectionsMap secName = Some [(oa, 3), (ob, 3), (oc, 3)] \<and>
        \<not> isButtonOp (oa, 3) \<and> \<not> isButtonOp (ob, 3) \<and> \<not> isButtonOp (oc, 3)"
    using three_by_three [of oa ob oc st rnd secName] that assms(4)
    by (simp add: placeSection_def Let_def)
  show ?thesis
    unfolding Let_def
    using run main button len safety example by blast
qed

lemma example_buttons: "isButtonOp (buttonOp, n)" "\<not> isButtonOp (joinOp, n)"
proof -
  have "isButtonOp (buttonOp, 0)" and "\<not> isButtonOp (joinOp, 0)"
    by code_simp+
  then show "isButtonOp (buttonOp, n)" and "\<not> isButtonOp (joinOp, n)"
    using isButtonOp_count [of buttonOp n 0] isButtonOp_count [of joinOp n 0] by simp_all
qed

lemma example_button_first:
  "layout (placeAll (\<lambda>n. ''u'') [(buttonOp, 2), (joinOp, 3)]) =
     [boardEntity ''u'' ''Assembly'' 2 0,
      machineEntity ''u'' joinOp LaneA 2 0 (Some ROT_FACE_FRONT) (Some ''Assembly''),
      machineEntity ''u'' joinOp LaneB 2 1 (Some ROT_FACE_FRONT) (Some ''Assembly''),
      machineEntity ''u'' joinOp LaneC 2 2 (Some ROT_FACE_FRONT) (Some ''Assembly''),
      machineEntity ''u'' buttonOp LaneD 2 0 (Some ROT_FACE_FRONT) (Some ''Assembly''),
      machineEntity ''u'' buttonOp LaneD 4 1 (Some ROT_FACE_FRONT) (Some ''Assembly'')]"
  by code_simp

theorem assembly_round_robin_witness:
  "generateLayout (\<lambda>n. ''u'') [buttonOp, joinOp] 480 480 =
     Inr (layout (placeAll (\<lambda>n. ''u'') [(buttonOp, 2), (joinOp, 3)])) \<and>
   lane (layout (placeAll (\<lambda>n. ''u'') [(buttonOp, 2), (joinOp, 3)]) ! 2) = LaneB \<and>
   operation (layout (placeAll (\<lambda>n. ''u'') [(buttonOp, 2), (joinOp, 3)]) ! 2) = joinOp \<and>
   vx (position (layout (placeAll (\<lambda>n. ''u'') [(buttonOp, 2), (joinOp, 3)]) ! 2)) = 2 \<and>
   lane (layout (placeAll (\<lambda>n. ''u'') [(buttonOp, 2), (joinOp, 3)]) ! 5) = LaneD \<and>
   operation (layout (placeAll (\<lambda>n. ''u'') [(buttonOp, 2), (joinOp, 3)]) ! 5) = buttonOp \<and>
   vx (position (layout (placeAll (\<lambda>n. ''u'') [(buttonOp, 2), (joinOp, 3)]) ! 5)) = 4 \<and>
   vy (rotation (machineEntity ''u'' buttonOp LaneD 4 1 (Some ROT_FACE_FRONT) (Some ''Assembly'')))
     = ROT_FACE_FRONT \<and>
   map lane
     (drop (Suc 0)
        (layout (placeSection (\<lambda>n. ''u'')
           [''Assembly'' \<mapsto> [(joinOp, 3), (joinOp, 3), (joinOp, 3)]] ''Assembly'' initState))) =
     [LaneA, LaneB, LaneC, LaneA, LaneB, LaneC, LaneA, LaneB, LaneC]"
proof -
  let ?bal = "[(buttonOp, 2 :: nat), (joinOp, 3)]"
  let ?lay = "layout (placeAll (\<lambda>n. ''u'') ?bal)"
  let ?e = "machineEntity ''u'' buttonOp LaneD 4 1 (Some ROT_FACE_FRONT) (Some ''Assembly'')"
  let ?m = "[''Assembly'' \<mapsto> [(joinOp, 3 :: nat), (joinOp, 3), (joinOp, 3)]]"
  have calc: "calculateMachineRequirements [buttonOp, joinOp] 480 480 = Inr ?bal"
    by (simp add: calculateMachineRequirements_def buttonOp_def joinOp_def)
  have order: "snd (groupBySection ?bal) = [''Assembly'']"
    by (simp add: groupBySection_char example_keys)
  have p: "0 < length (snd (groupBySection ?bal))"
    using order by simp
  have sec: "''Assembly'' = snd (groupBySection ?bal) ! 0"
    using order by simp
  have bucket: "sectionBucket ?bal ''Assembly'' = ?bal"
    by (simp add: sectionBucket_def example_keys)
  have mainOps: "filter (\<lambda>i. \<not> isButtonOp i) ?bal = [(joinOp, 3)]"
    and buttonOps: "filter isButtonOp ?bal = [(buttonOp, 2)]"
    by (simp_all add: example_buttons)
  have start: "sectionStart (\<lambda>n. ''u'') ?bal 0 = initState"
    by (simp add: sectionStart_def)
  note T = assembly_round_robin [OF calc p sec example_sections(3),
      of "\<lambda>n. ''u''" 0 ?m joinOp joinOp joinOp initState,
      unfolded Let_def bucket mainOps buttonOps start]
  have run: "generateLayout (\<lambda>n. ''u'') [buttonOp, joinOp] 480 480 = Inr ?lay"
    using T by blast
  have main: "lane (?lay ! 2) = LaneB \<and> operation (?lay ! 2) = joinOp \<and>
      vx (position (?lay ! 2)) = 2"
    using T [THEN conjunct2, THEN conjunct1, rule_format, of 0 1]
    by (simp add: initState_def max4_def SECTION_GAP_X_def numeral_2_eq_2)
  have button: "lane (?lay ! 5) = LaneD \<and> operation (?lay ! 5) = buttonOp \<and>
      vx (position (?lay ! 5)) = 4"
    using T [THEN conjunct2, THEN conjunct2, THEN conjunct1, rule_format, of 0 1]
    by (simp add: initState_def max4_def SECTION_GAP_X_def MACHINE_SPACING_X_def)
  have mem: "?e \<in> set ?lay"
    by (simp add: example_button_first)
  have asm: "isMachine ?e \<and> str_includes (toLowerCase (ent_section ?e)) assemblySection"
    using example_sections(3) by (simp add: machineEntity_fields)
  have front: "vy (rotation ?e) = ROT_FACE_FRONT"
    using T [THEN conjunct2, THEN conjunct2, THEN conjunct2, THEN conjunct2,
        THEN conjunct1, rule_format, OF mem asm]
    by simp
  have three: "?m ''Assembly'' = Some [(joinOp, 3), (joinOp, 3), (joinOp, 3)] \<and>
      \<not> isButtonOp (joinOp, 3) \<and> \<not> isButtonOp (joinOp, 3) \<and> \<not> isButtonOp (joinOp, 3)"
    by (simp add: example_buttons)
  have "map fst (map (\<lambda>e. (lane e, vx (position e), vy (rotation e), operation e))
        (drop (Suc (length (layout initState)))
           (layout (placeSection (\<lambda>n. ''u'') ?m ''Assembly'' initState)))) =
      [LaneA, LaneB, LaneC, LaneA, LaneB, LaneC, LaneA, LaneB, LaneC]"
    by (simp only: T [THEN conjunct2, THEN conjunct2, THEN conjunct2, THEN conjunct2,
          THEN conjunct2, rule_format, OF three] list.map fst_conv)
  then have lanes: "map lane
     (drop (Suc 0) (layout (placeSection (\<lambda>n. ''u'') ?m ''Assembly'' initState))) =
     [LaneA, LaneB, LaneC, LaneA, LaneB, LaneC, LaneA, LaneB, LaneC]"
    by (simp add: comp_def initState_def)
  from run main button front lanes show ?thesis
    by (intro conjI) simp_all
qed

subsection \<open>The order of the walk, in the returned list\<close>

lemma machineOps_append [simp]: "machineOps (xs @ ys) = machineOps xs @ machineOps ys"
  by (simp add: machineOps_def)

lemma boardSections_append [simp]:
  "boardSections (xs @ ys) = boardSections xs @ boardSections ys"
  by (simp add: boardSections_def)

lemma machineOps_machines [simp]:
  "machineOps (machines rnd u0 op L X f s n) = replicate n op"
  by (simp add: machineOps_def)
     (simp add: machines_def comp_def machineEntity_fields map_replicate_const)

lemma boardSections_machines [simp]: "boardSections (machines rnd u0 op L X f s n) = []"
  by (simp add: boardSections_def machines_def isBoard_def machineEntity_fields filter_empty_conv)

lemma machineOps_fixtures [simp]:
  "machineOps [boardEntity u name x z] = []"
  "machineOps [inspectionEntity g s y, trolleyEntity g s y] = []"
  by (simp_all add: machineOps_def)

lemma boardSections_fixtures [simp]:
  "boardSections [boardEntity u name x z] = [name]"
  "boardSections [inspectionEntity g s y, trolleyEntity g s y] = []"
  by (simp_all add: boardSections_def isBoard_def boardEntity_def Let_def
        inspectionEntity_def trolleyEntity_def)

lemma fold_placeOp_walk:
  "machineOps (layout (fst (fold (placeOp rnd g s) xs a))) =
     machineOps (layout (fst a)) @ concat (map runOf xs) \<and>
   boardSections (layout (fst (fold (placeOp rnd g s) xs a))) = boardSections (layout (fst a))"
proof (induction xs arbitrary: a)
  case Nil
  then show ?case by simp
next
  case (Cons item xs)
  obtain op n where item: "item = (op, n)" by (cases item)
  obtain st tg where a: "a = (st, tg)" by (cases a)
  show ?case
    using Cons.IH [of "placeOp rnd g s item a"]
    by (simp add: item a placeOp_closed runOf_def)
qed

lemma fold_placeMain_walk:
  "machineOps (layout (snd (fold (placeMain rnd s) xs a))) =
     machineOps (layout (snd a)) @ concat (map runOf xs) \<and>
   boardSections (layout (snd (fold (placeMain rnd s) xs a))) = boardSections (layout (snd a))"
proof (induction xs arbitrary: a)
  case Nil
  then show ?case by simp
next
  case (Cons item xs)
  obtain op n where item: "item = (op, n)" by (cases item)
  obtain c st where a: "a = (c, st)" by (cases a)
  show ?case
    using Cons.IH [of "placeMain rnd s item a"]
    by (simp add: item a placeMain_closed runOf_def)
qed

lemma fold_placeButton_walk:
  "machineOps (layout (snd (fold (placeButton rnd s) xs a))) =
     machineOps (layout (snd a)) @ concat (map runOf xs) \<and>
   boardSections (layout (snd (fold (placeButton rnd s) xs a))) = boardSections (layout (snd a))"
proof (induction xs arbitrary: a)
  case Nil
  then show ?case by simp
next
  case (Cons item xs)
  obtain op n where item: "item = (op, n)" by (cases item)
  obtain c st where a: "a = (c, st)" by (cases a)
  show ?case
    using Cons.IH [of "placeButton rnd s item a"]
    by (simp add: item a placeButton_closed runOf_def)
qed

lemma placePrep_walk:
  "machineOps (layout (placePrep rnd s ops st)) =
     machineOps (layout st) @ concat (map runOf ops) \<and>
   boardSections (layout (placePrep rnd s ops st)) = boardSections (layout st) @ [s]"
proof -
  let ?g = "targetGroupOf (toLowerCase s)"
  let ?st3 = "boardClearance ?g (addBoard rnd s (pairMax ?g (cursors st) + SECTION_GAP_X)
                (case ?g of AB \<Rightarrow> LANE_Z_A | CD \<Rightarrow> LANE_Z_C) (syncPair ?g st))"
  show ?thesis
    using fold_placeOp_walk [of rnd ?g s ops "(?st3, firstLane ?g)"]
    by (simp add: placePrep_def Let_def)
qed

lemma placeAssembly_walk:
  "machineOps (layout (placeAssembly rnd s ops st)) =
     machineOps (layout st) @
     concat (map runOf (filter (\<lambda>i. \<not> isButtonOp i) ops @ filter isButtonOp ops)) \<and>
   boardSections (layout (placeAssembly rnd s ops st)) = boardSections (layout st) @ [''Assembly'']"
proof -
  let ?x = "max4 (cursors st) + SECTION_GAP_X"
  let ?a = "(?x, addBoard rnd ''Assembly'' ?x 0 (syncAll st))"
  let ?main = "fold (placeMain rnd s) (filter (\<lambda>i. \<not> isButtonOp i) ops) ?a"
  show ?thesis
    using fold_placeMain_walk [of rnd s "filter (\<lambda>i. \<not> isButtonOp i) ops" ?a]
      fold_placeButton_walk [of rnd s "filter isButtonOp ops" "(?x, snd ?main)"]
    by (simp add: placeAssembly_layout)
qed

lemma placeSection_walk:
  assumes "m s = Some bucket"
  shows "machineOps (layout (placeSection rnd m s st)) =
           machineOps (layout st) @ concat (map runOf (walkOrder s bucket)) \<and>
         boardSections (layout (placeSection rnd m s st)) =
           boardSections (layout st) @ [boardName s]"
  using placePrep_walk [of rnd s bucket st] placeAssembly_walk [of rnd s bucket st]
  by (simp add: placeSection_def Let_def assms walkOrder_def boardName_def)

lemma fold_placeSection_walk:
  assumes "\<forall>s\<in>set secs. m s = Some (B s)"
  shows "machineOps (layout (fold (placeSection rnd m) secs st)) =
           machineOps (layout st) @
           concat (map (\<lambda>s. concat (map runOf (walkOrder s (B s)))) secs) \<and>
         boardSections (layout (fold (placeSection rnd m) secs st)) =
           boardSections (layout st) @ map boardName secs"
  using assms
proof (induction secs arbitrary: st)
  case Nil
  then show ?case by simp
next
  case (Cons s secs)
  have "m s = Some (B s)"
    using Cons.prems by simp
  from placeSection_walk [where m = m and s = s and bucket = "B s" and rnd = rnd and st = st,
      OF this] Cons.IH [of "placeSection rnd m s st"] Cons.prems
  show ?case
    by simp
qed

lemma placeAll_walk:
  "machineOps (layout (placeAll rnd bal)) =
     concat (map (\<lambda>s. concat (map runOf (walkOrder s (sectionBucket bal s))))
               (firstSeen (map sectionKey bal))) \<and>
   boardSections (layout (placeAll rnd bal)) = map boardName (firstSeen (map sectionKey bal))"
proof -
  have "\<forall>s\<in>set (snd (groupBySection bal)).
      fst (groupBySection bal) s = Some (sectionBucket bal s)"
    by (simp add: groupBySection_dom sectionBucket_def)
  from fold_placeSection_walk [where B = "sectionBucket bal" and rnd = rnd and st = initState,
      OF this]
  show ?thesis
    by (simp add: placeAll_def Let_def groupBySection_char initState_def machineOps_def
          boardSections_def)
qed

text \<open>
  C8. Two calls with the same operations, target and working minutes, whatever
  \<^verbatim>\<open>uuidv4\<close> returns in each, fail alike or return lists of the same length that agree,
  entity by entity, on lane, position, rotation, section, sequence index, operation and
  the two flags: only the identifiers may differ. In the returned list the boards follow
  the sections in the order of their first occurrence in the input, and the machines
  follow the same order of sections; within a parts-preparation section the machines
  follow the section's operations in input order, and within an assembly section they
  follow its main operations in input order and then its buttoning operations in input
  order.
\<close>

theorem layout_same_up_to_ids:
  "(generateLayout rnd ops targetOutput workingMinutes = Inl InvalidDemand \<longleftrightarrow>
      generateLayout rnd' ops targetOutput workingMinutes = Inl InvalidDemand) \<and>
   (generateLayout rnd ops targetOutput workingMinutes = Inr lay \<longrightarrow>
      (\<exists>lay'. generateLayout rnd' ops targetOutput workingMinutes = Inr lay' \<and>
         length lay' = length lay \<and>
         (\<forall>i<length lay.
            lane (lay' ! i) = lane (lay ! i) \<and>
            position (lay' ! i) = position (lay ! i) \<and>
            rotation (lay' ! i) = rotation (lay ! i) \<and>
            ent_section (lay' ! i) = ent_section (lay ! i) \<and>
            machineIndex (lay' ! i) = machineIndex (lay ! i) \<and>
            operation (lay' ! i) = operation (lay ! i) \<and>
            isInspection (lay' ! i) = isInspection (lay ! i) \<and>
            isTrolley (lay' ! i) = isTrolley (lay ! i))) \<and>
      (\<exists>bal. calculateMachineRequirements ops targetOutput workingMinutes = Inr bal \<and>
         map fst bal = ops \<and>
         boardSections lay = map boardName (firstSeen (map sectionKey bal)) \<and>
         machineOps lay =
           concat (map (\<lambda>s. concat (map runOf (walkOrder s (sectionBucket bal s))))
                     (firstSeen (map sectionKey bal)))))"
proof (intro conjI impI)
  show "(generateLayout rnd ops targetOutput workingMinutes = Inl InvalidDemand) =
      (generateLayout rnd' ops targetOutput workingMinutes = Inl InvalidDemand)"
    by (simp add: generateLayout_def split: sum.splits)
next
  assume run: "generateLayout rnd ops targetOutput workingMinutes = Inr lay"
  then obtain bal where bal: "calculateMachineRequirements ops targetOutput workingMinutes = Inr bal"
    and lay: "lay = layout (placeAll rnd bal)"
    by (auto simp add: generateLayout_def split: sum.splits)
  let ?lay' = "layout (placeAll rnd' bal)"
  have eq: "map stripId ?lay' = map stripId lay"
    using placeAll_same [of rnd' bal rnd] by (simp add: lay sameButIds_def)
  then have len: "length ?lay' = length lay"
    by (rule map_eq_imp_length_eq)
  have nth: "stripId (?lay' ! i) = stripId (lay ! i)" if "i < length lay" for i
  proof -
    have "map stripId ?lay' ! i = map stripId lay ! i"
      using eq by simp
    then show ?thesis
      using that len by simp
  qed
  have "generateLayout rnd' ops targetOutput workingMinutes = Inr ?lay'"
    by (simp add: generateLayout_def bal)
  moreover have "\<forall>i<length lay.
            lane (?lay' ! i) = lane (lay ! i) \<and>
            position (?lay' ! i) = position (lay ! i) \<and>
            rotation (?lay' ! i) = rotation (lay ! i) \<and>
            ent_section (?lay' ! i) = ent_section (lay ! i) \<and>
            machineIndex (?lay' ! i) = machineIndex (lay ! i) \<and>
            operation (?lay' ! i) = operation (lay ! i) \<and>
            isInspection (?lay' ! i) = isInspection (lay ! i) \<and>
            isTrolley (?lay' ! i) = isTrolley (lay ! i)"
    using stripId_fields [OF nth] by blast
  ultimately show "\<exists>lay'. generateLayout rnd' ops targetOutput workingMinutes = Inr lay' \<and>
         length lay' = length lay \<and>
         (\<forall>i<length lay.
            lane (lay' ! i) = lane (lay ! i) \<and>
            position (lay' ! i) = position (lay ! i) \<and>
            rotation (lay' ! i) = rotation (lay ! i) \<and>
            ent_section (lay' ! i) = ent_section (lay ! i) \<and>
            machineIndex (lay' ! i) = machineIndex (lay ! i) \<and>
            operation (lay' ! i) = operation (lay ! i) \<and>
            isInspection (lay' ! i) = isInspection (lay ! i) \<and>
            isTrolley (lay' ! i) = isTrolley (lay ! i))"
    using len by blast
  have fsts: "map fst bal = ops"
    using bal by (auto simp add: calculateMachineRequirements_def comp_def split: if_splits)
  show "\<exists>bal. calculateMachineRequirements ops targetOutput workingMinutes = Inr bal \<and>
         map fst bal = ops \<and>
         boardSections lay = map boardName (firstSeen (map sectionKey bal)) \<and>
         machineOps lay =
           concat (map (\<lambda>s. concat (map runOf (walkOrder s (sectionBucket bal s))))
                     (firstSeen (map sectionKey bal)))"
    using bal fsts placeAll_walk [of rnd bal] unfolding lay by blast
qed

lemma sampleUuid_const: "sampleUuid = (\<lambda>n. ''u'')"
  by (simp add: fun_eq_iff sampleUuid_def)

text \<open>
  Within an assembly section the walk is not the input order: with the buttoning operation
  \<open>buttonOp\<close> first in the input and the main operation \<open>joinOp\<close> second, both of one
  section, the machines of \<open>joinOp\<close> come first in the returned list.
\<close>

theorem assembly_walk_counterexample:
  "generateLayout sampleUuid [buttonOp, joinOp] 480 480 =
     Inr [boardEntity ''u'' ''Assembly'' 2 0,
          machineEntity ''u'' joinOp LaneA 2 0 (Some ROT_FACE_FRONT) (Some ''Assembly''),
          machineEntity ''u'' joinOp LaneB 2 1 (Some ROT_FACE_FRONT) (Some ''Assembly''),
          machineEntity ''u'' joinOp LaneC 2 2 (Some ROT_FACE_FRONT) (Some ''Assembly''),
          machineEntity ''u'' buttonOp LaneD 2 0 (Some ROT_FACE_FRONT) (Some ''Assembly''),
          machineEntity ''u'' buttonOp LaneD 4 1 (Some ROT_FACE_FRONT) (Some ''Assembly'')] \<and>
   op_section buttonOp = op_section joinOp \<and>
   operation (machineEntity ''u'' joinOp LaneA 2 0 (Some ROT_FACE_FRONT) (Some ''Assembly''))
     \<noteq> buttonOp"
proof -
  have "calculateMachineRequirements [buttonOp, joinOp] 480 480 = Inr [(buttonOp, 2), (joinOp, 3)]"
    by (simp add: calculateMachineRequirements_def buttonOp_def joinOp_def)
  then have "generateLayout sampleUuid [buttonOp, joinOp] 480 480 =
      Inr (layout (placeAll (\<lambda>n. ''u'') [(buttonOp, 2), (joinOp, 3)]))"
    by (simp add: generateLayout_def sampleUuid_const)
  moreover have "op_section buttonOp = op_section joinOp" and "joinOp \<noteq> buttonOp"
    by (simp_all add: buttonOp_def joinOp_def)
  ultimately show ?thesis
    by (simp add: example_button_first machineEntity_fields)
qed

theorem layout_same_up_to_ids_witness:
  "(\<exists>lay'. generateLayout (\<lambda>n. ''v'') [buttonOp, joinOp] 480 480 = Inr lay' \<and>
      length lay' = 6 \<and> lane (lay' ! 1) = LaneA \<and> machineIndex (lay' ! 1) = Some 0) \<and>
   machineOps (layout (placeAll sampleUuid [(buttonOp, 2), (joinOp, 3)])) =
     [joinOp, joinOp, joinOp, buttonOp, buttonOp] \<and>
   boardSections (layout (placeAll sampleUuid [(buttonOp, 2), (joinOp, 3)])) = [''Assembly'']"
proof -
  let ?bal = "[(buttonOp, 2 :: nat), (joinOp, 3)]"
  let ?lay = "layout (placeAll sampleUuid ?bal)"
  have calc: "calculateMachineRequirements [buttonOp, joinOp] 480 480 = Inr ?bal"
    by (simp add: calculateMachineRequirements_def buttonOp_def joinOp_def)
  have run: "generateLayout sampleUuid [buttonOp, joinOp] 480 480 = Inr ?lay"
    by (simp add: generateLayout_def calc)
  have explicit: "?lay =
     [boardEntity ''u'' ''Assembly'' 2 0,
      machineEntity ''u'' joinOp LaneA 2 0 (Some ROT_FACE_FRONT) (Some ''Assembly''),
      machineEntity ''u'' joinOp LaneB 2 1 (Some ROT_FACE_FRONT) (Some ''Assembly''),
      machineEntity ''u'' joinOp LaneC 2 2 (Some ROT_FACE_FRONT) (Some ''Assembly''),
      machineEntity ''u'' buttonOp LaneD 2 0 (Some ROT_FACE_FRONT) (Some ''Assembly''),
      machineEntity ''u'' buttonOp LaneD 4 1 (Some ROT_FACE_FRONT) (Some ''Assembly'')]"
    by (simp add: sampleUuid_const example_button_first)
  note T = layout_same_up_to_ids [where rnd = sampleUuid and rnd' = "\<lambda>n. ''v''"
      and ops = "[buttonOp, joinOp]" and targetOutput = 480 and workingMinutes = 480
      and lay = ?lay, THEN conjunct2, rule_format, OF run]
  obtain lay' where run': "generateLayout (\<lambda>n. ''v'') [buttonOp, joinOp] 480 480 = Inr lay'"
    and len: "length lay' = length ?lay"
    and same: "\<forall>i<length ?lay. lane (lay' ! i) = lane (?lay ! i) \<and>
            position (lay' ! i) = position (?lay ! i) \<and>
            rotation (lay' ! i) = rotation (?lay ! i) \<and>
            ent_section (lay' ! i) = ent_section (?lay ! i) \<and>
            machineIndex (lay' ! i) = machineIndex (?lay ! i) \<and>
            operation (lay' ! i) = operation (?lay ! i) \<and>
            isInspection (lay' ! i) = isInspection (?lay ! i) \<and>
            isTrolley (lay' ! i) = isTrolley (?lay ! i)"
    using T by blast
  have "(1::nat) < length ?lay"
    by (simp add: explicit)
  with same have "lane (lay' ! 1) = lane (?lay ! 1)"
    and "machineIndex (lay' ! 1) = machineIndex (?lay ! 1)"
    by blast+
  then have 1: "length lay' = 6 \<and> lane (lay' ! 1) = LaneA \<and> machineIndex (lay' ! 1) = Some 0"
    using len by (simp add: explicit machineEntity_fields)
  obtain bal where bal: "calculateMachineRequirements [buttonOp, joinOp] 480 480 = Inr bal"
    and boards: "boardSections ?lay = map boardName (firstSeen (map sectionKey bal))"
    and walk: "machineOps ?lay =
        concat (map (\<lambda>s. concat (map runOf (walkOrder s (sectionBucket bal s))))
                  (firstSeen (map sectionKey bal)))"
    using T by blast
  have bal_eq: "bal = ?bal"
    using bal calc by simp
  have 2: "machineOps ?lay = [joinOp, joinOp, joinOp, buttonOp, buttonOp]"
    unfolding walk bal_eq
    by (simp add: example_keys sectionBucket_def walkOrder_def example_sections example_buttons
          runOf_def numeral_2_eq_2 numeral_3_eq_3)
  have 3: "boardSections ?lay = [''Assembly'']"
    unfolding boards bal_eq
    by (simp add: example_keys boardName_def example_sections)
  from run' 1 2 3 show ?thesis
    by blast
qed

end
